theory Spec2Isabelle
  imports Main "HOL-Library.AList" "HOL-Library.Char_ord" "HOL-Library.List_Lexorder"
begin

section \<open>Common data: Python values, dictionaries, errors\<close>

text \<open>
  The module \<^verbatim>\<open>utils.py\<close> of \<^verbatim>\<open>kiara_modules.network_analysis\<close> converts between
  GraphML documents, in-memory graphs, column tables and a relational store.
  Python dictionaries keep insertion order, so a dictionary is an association list with
  distinct keys: \<open>map_of\<close> reads it, \<open>AList.update\<close> is \<^verbatim>\<open>d[k] = v\<close> (overwrite in
  place, or append a new key at the end) and \<open>AList.delete\<close> removes a key as
  \<^verbatim>\<open>d.pop(k)\<close> does.
\<close>

type_synonym ('k, 'v) dict = "('k \<times> 'v) list"

definition keys :: "('k, 'v) dict \<Rightarrow> 'k list" where
  "keys d = map fst d"

definition dict_values :: "('k, 'v) dict \<Rightarrow> 'v list" where
  "dict_values d = map snd d"

text \<open>
  The cell values that travel through tables and graph attributes. \<open>PyNaN\<close> is the
  object \<^verbatim>\<open>float("nan")\<close> that the table extractor uses as a placeholder; it is a
  value like any other, so a graph may also carry it as a real attribute value.
\<close>

datatype pyval = PyStr string | PyInt int | PyNaN

text \<open>
  Every \<^verbatim>\<open>raise\<close> of the source, and every exception of a failed lookup, is a value.
  The two duplicate-column messages are ordinary string literals in the source (they
  lack the \<^verbatim>\<open>f\<close> prefix), so the text \<^verbatim>\<open>{v}\<close> is part of the message.
  \<open>ArrowError\<close> stands for the exception with which \<^verbatim>\<open>pyarrow\<close> refuses a column
  that it cannot give one type (\<^verbatim>\<open>ArrowTypeError\<close>, \<^verbatim>\<open>ArrowInvalid\<close> or
  \<^verbatim>\<open>OverflowError\<close>, depending on the cells).
\<close>

datatype error =
    KeyError string
  | IndexError
  | AttributeError
  | ValueError string
  | Exception string
  | NetworkXError string
  | StoreError string
  | ArrowError

section \<open>Type mapper\<close>

text \<open>
  \<^verbatim>\<open>convert_graphml_type_to_sqlite\<close>: a lookup in a literal dictionary of six entries;
  \<^verbatim>\<open>type_map[data_type]\<close> raises \<^verbatim>\<open>KeyError\<close> on any other string.
\<close>

definition type_map :: "(string, string) dict" where
  "type_map =
    [(''boolean'', ''INTEGER''),
     (''int'', ''INTEGER''),
     (''long'', ''INTEGER''),
     (''float'', ''REAL''),
     (''double'', ''REAL''),
     (''string'', ''TEXT'')]"

definition convert_graphml_type_to_sqlite :: "string \<Rightarrow> error + string" where
  "convert_graphml_type_to_sqlite data_type =
    (case map_of type_map data_type of
       None \<Rightarrow> Inl (KeyError data_type)
     | Some t \<Rightarrow> Inr t)"

section \<open>GraphML parser\<close>

text \<open>
  The document that \<^verbatim>\<open>minidom.parse\<close> returns. An element has a tag name, attributes
  and child nodes; every other node that can stand inside an element (text, CDATA
  section, comment, processing instruction) carries a string \<^verbatim>\<open>data\<close> and has no
  children. Reading the file and the XML syntax itself belong to the library; the parser
  is modelled from the document on. The document is given by its child nodes.
\<close>

datatype xml_node =
    Element (tagName: string) (attributes: "(string, string) dict") (childNodes: "xml_node list")
  | CharData (node_data: string)
where
  "tagName (CharData d) = ''#text''"
| "attributes (CharData d) = []"
| "childNodes (CharData d) = []"
| "node_data (Element t a c) = []"

text \<open>\<^verbatim>\<open>getAttribute\<close> answers the empty string for an attribute that is not there.\<close>

definition getAttribute :: "xml_node \<Rightarrow> string \<Rightarrow> string" where
  "getAttribute node name = (case map_of (attributes node) name of Some v \<Rightarrow> v | None \<Rightarrow> [])"

text \<open>
  \<^verbatim>\<open>getElementsByTagName\<close>: all descendant elements with the tag name, in document
  order (an element before its own descendants). The function works on the child
  nodes of the node that is asked.
\<close>

fun elements_by_tag :: "string \<Rightarrow> xml_node list \<Rightarrow> xml_node list" where
  "elements_by_tag name [] = []"
| "elements_by_tag name (Element t a c # rest) =
     (if t = name then [Element t a c] else []) @ elements_by_tag name c
       @ elements_by_tag name rest"
| "elements_by_tag name (CharData d # rest) = elements_by_tag name rest"

definition getElementsByTagName :: "xml_node \<Rightarrow> string \<Rightarrow> xml_node list" where
  "getElementsByTagName parent name = elements_by_tag name (childNodes parent)"

text \<open>
  The graph of the library \<^verbatim>\<open>pygraphml\<close>, which is not part of the module. The parser
  uses \<^verbatim>\<open>Graph(name)\<close>, \<^verbatim>\<open>add_node(id=...)\<close>, \<^verbatim>\<open>add_edge_by_id(source, dest)\<close>
  and item assignment on the node or edge returned. A graph is a name, a list of nodes
  and a list of edges; a node has its identifier and its attributes; an edge refers to
  its two nodes by their positions in the list of nodes and has its attributes.
  \<^verbatim>\<open>add_node\<close> has a parameter \<^verbatim>\<open>label\<close> with the default \<^verbatim>\<open>""\<close> and sets the
  attribute \<^verbatim>\<open>label\<close> of the new node to it, so a node starts with this one
  attribute; an edge starts with none. \<^verbatim>\<open>add_edge_by_id\<close> takes for each
  identifier the first node that has it and raises \<^verbatim>\<open>ValueError\<close> when there is
  none.
\<close>

record pg_node =
  node_id :: string
  node_attr :: "(string, string) dict"

record pg_edge =
  edge_node1 :: nat
  edge_node2 :: nat
  edge_attr :: "(string, string) dict"

record pg_graph =
  graph_name :: string
  graph_nodes :: "pg_node list"
  graph_edges :: "pg_edge list"

definition Graph :: "string \<Rightarrow> pg_graph" where
  "Graph name = \<lparr>graph_name = name, graph_nodes = [], graph_edges = []\<rparr>"

fun find_index_of :: "('a \<Rightarrow> bool) \<Rightarrow> 'a list \<Rightarrow> nat option" where
  "find_index_of P [] = None"
| "find_index_of P (x # xs) =
     (if P x then Some 0 else map_option Suc (find_index_of P xs))"

text \<open>
  The four tables built from the \<^verbatim>\<open>key\<close> elements: identifier to name, and name to
  \<^verbatim>\<open>{"data_type": ...}\<close>, for edges and for nodes.
\<close>

type_synonym props = "(string, (string, string) dict) dict"

record key_tables =
  edge_map :: "(string, string) dict"
  node_map :: "(string, string) dict"
  edge_props :: props
  node_props :: props

definition no_keys :: key_tables where
  "no_keys = \<lparr>edge_map = [], node_map = [], edge_props = [], node_props = []\<rparr>"

text \<open>
  The loop over \<^verbatim>\<open>root.getElementsByTagName("key")\<close>. Every value of \<^verbatim>\<open>for\<close> other
  than \<^verbatim>\<open>edge\<close> goes to the node tables. An unknown \<^verbatim>\<open>attr.type\<close> raises
  \<^verbatim>\<open>KeyError\<close>.
\<close>

fun scan_keys :: "xml_node list \<Rightarrow> key_tables \<Rightarrow> error + key_tables" where
  "scan_keys [] kt = Inr kt"
| "scan_keys (attr # rest) kt =
    (let n_id = getAttribute attr ''id'';
         name = getAttribute attr ''attr.name'';
         for_type = getAttribute attr ''for'';
         attr_type = getAttribute attr ''attr.type''
     in case convert_graphml_type_to_sqlite attr_type of
          Inl e \<Rightarrow> Inl e
        | Inr data_type \<Rightarrow>
            if for_type = ''edge'' then
              scan_keys rest
                (kt\<lparr>edge_map := AList.update n_id name (edge_map kt),
                    edge_props := AList.update name [(''data_type'', data_type)] (edge_props kt)\<rparr>)
            else
              scan_keys rest
                (kt\<lparr>node_map := AList.update n_id name (node_map kt),
                    node_props := AList.update name [(''data_type'', data_type)] (node_props kt)\<rparr>))"

text \<open>
  \<^verbatim>\<open>for key in sorted(m.keys()): props_sorted[m[key]] = props[m[key]]\<close>. Python
  compares strings by code points; \<open>sort\<close> compares the lists of characters
  lexicographically, a proper prefix first, which is the same order.
\<close>

fun sorted_props :: "string list \<Rightarrow> (string, string) dict \<Rightarrow> props \<Rightarrow> props \<Rightarrow> error + props" where
  "sorted_props [] m props acc = Inr acc"
| "sorted_props (key # rest) m props acc =
    (case map_of m key of
       None \<Rightarrow> Inl (KeyError key)
     | Some name \<Rightarrow>
        (case map_of props name of
           None \<Rightarrow> Inl (KeyError name)
         | Some p \<Rightarrow> sorted_props rest m props (AList.update name p acc)))"

text \<open>
  The loop over the \<^verbatim>\<open>data\<close> elements of a node or an edge: the key is resolved
  through the identifier-to-name table (\<^verbatim>\<open>KeyError\<close> when it is not there); the
  attribute becomes the \<^verbatim>\<open>data\<close> of the first child, or the empty string when the
  element has no child. A first child that is an element has no \<^verbatim>\<open>data\<close>.
\<close>

fun read_data ::
  "(string, string) dict \<Rightarrow> xml_node list \<Rightarrow> (string, string) dict
     \<Rightarrow> error + (string, string) dict" where
  "read_data m [] item = Inr item"
| "read_data m (attr # rest) item =
    (let key = getAttribute attr ''key'' in
     case map_of m key of
       None \<Rightarrow> Inl (KeyError key)
     | Some mapped \<Rightarrow>
        (case childNodes attr of
           [] \<Rightarrow> read_data m rest (AList.update mapped [] item)
         | CharData d # _ \<Rightarrow> read_data m rest (AList.update mapped d item)
         | Element _ _ _ # _ \<Rightarrow> Inl AttributeError))"

text \<open>
  The attributes of the node that \<^verbatim>\<open>g.add_node(id=...)\<close> returns: the label that
  the library sets.
\<close>

definition new_node_attr :: "(string, string) dict" where
  "new_node_attr = [(''label'', [])]"

text \<open>The loop over the \<^verbatim>\<open>node\<close> elements.\<close>

fun add_nodes :: "(string, string) dict \<Rightarrow> xml_node list \<Rightarrow> pg_graph \<Rightarrow> error + pg_graph" where
  "add_nodes m [] g = Inr g"
| "add_nodes m (node # rest) g =
    (case read_data m (getElementsByTagName node ''data'') new_node_attr of
       Inl e \<Rightarrow> Inl e
     | Inr item \<Rightarrow>
         add_nodes m rest
           (g\<lparr>graph_nodes := graph_nodes g @
                 [\<lparr>node_id = getAttribute node ''id'', node_attr = item\<rparr>]\<rparr>))"

text \<open>The loop over the \<^verbatim>\<open>edge\<close> elements.\<close>

fun add_edges :: "(string, string) dict \<Rightarrow> xml_node list \<Rightarrow> pg_graph \<Rightarrow> error + pg_graph" where
  "add_edges m [] g = Inr g"
| "add_edges m (edge # rest) g =
    (let source = getAttribute edge ''source'';
         dest = getAttribute edge ''target''
     in case find_index_of (\<lambda>n. node_id n = source) (graph_nodes g) of
          None \<Rightarrow> Inl (ValueError source)
        | Some n1 \<Rightarrow>
           (case find_index_of (\<lambda>n. node_id n = dest) (graph_nodes g) of
              None \<Rightarrow> Inl (ValueError dest)
            | Some n2 \<Rightarrow>
               (case read_data m (getElementsByTagName edge ''data'') [] of
                  Inl e \<Rightarrow> Inl e
                | Inr item \<Rightarrow>
                    add_edges m rest
                      (g\<lparr>graph_edges := graph_edges g @
                            [\<lparr>edge_node1 = n1, edge_node2 = n2, edge_attr = item\<rparr>]\<rparr>))))"

text \<open>
  \<^verbatim>\<open>parse_graphml_file\<close>, from the parsed document on. \<^verbatim>\<open>[0]\<close> on an empty list of
  elements raises \<^verbatim>\<open>IndexError\<close>. The result is the graph, the edge schema and the
  node schema.
\<close>

definition parse_graphml_file :: "xml_node list \<Rightarrow> error + (pg_graph \<times> props \<times> props)" where
  "parse_graphml_file document =
    (case elements_by_tag ''graphml'' document of
       [] \<Rightarrow> Inl IndexError
     | root # _ \<Rightarrow>
        (case getElementsByTagName root ''graph'' of
           [] \<Rightarrow> Inl IndexError
         | graph # _ \<Rightarrow>
            (case scan_keys (getElementsByTagName root ''key'') no_keys of
               Inl e \<Rightarrow> Inl e
             | Inr kt \<Rightarrow>
                (case sorted_props (sort (keys (node_map kt))) (node_map kt) (node_props kt) [] of
                   Inl e \<Rightarrow> Inl e
                 | Inr node_props_sorted \<Rightarrow>
                    (case sorted_props (sort (keys (edge_map kt))) (edge_map kt)
                            (edge_props kt) [] of
                       Inl e \<Rightarrow> Inl e
                     | Inr edge_props_sorted \<Rightarrow>
                        (case add_nodes (node_map kt) (getElementsByTagName graph ''node'')
                                (Graph (getAttribute graph ''id'')) of
                           Inl e \<Rightarrow> Inl e
                         | Inr g1 \<Rightarrow>
                            (case add_edges (edge_map kt) (getElementsByTagName graph ''edge'') g1 of
                               Inl e \<Rightarrow> Inl e
                             | Inr g \<Rightarrow> Inr (g, edge_props_sorted, node_props_sorted))))))))"

text \<open>
  A well-formed GraphML document, as far as the parser depends on it: there is a \<^verbatim>\<open>graphml\<close> element with a \<^verbatim>\<open>graph\<close> element in it; every
  \<^verbatim>\<open>key\<close> element of the document lies in the \<^verbatim>\<open>graphml\<close> element, every
  \<^verbatim>\<open>node\<close> and \<^verbatim>\<open>edge\<close> element in the \<^verbatim>\<open>graph\<close> element; the keys declare one
  of the six types, their identifiers are distinct, and so are the attribute names of
  the node keys and those of the edge keys; a \<^verbatim>\<open>data\<close> element of a node (an edge)
  refers to a node key (an edge key) and holds character data or nothing; the source
  and target of an edge are identifiers of \<^verbatim>\<open>node\<close> elements.
\<close>

definition data_element_ok :: "xml_node list \<Rightarrow> xml_node \<Rightarrow> bool" where
  "data_element_ok declared d =
    (getAttribute d ''key'' \<in> set (map (\<lambda>k. getAttribute k ''id'') declared) \<and>
     (case childNodes d of Element _ _ _ # _ \<Rightarrow> False | _ \<Rightarrow> True))"

definition well_formed_graphml :: "xml_node list \<Rightarrow> bool" where
  "well_formed_graphml document =
    (case elements_by_tag ''graphml'' document of
       [] \<Rightarrow> False
     | root # _ \<Rightarrow>
        (case getElementsByTagName root ''graph'' of
           [] \<Rightarrow> False
         | graph # _ \<Rightarrow>
            (let key_els = getElementsByTagName root ''key'';
                 node_keys = filter (\<lambda>k. getAttribute k ''for'' \<noteq> ''edge'') key_els;
                 edge_keys = filter (\<lambda>k. getAttribute k ''for'' = ''edge'') key_els;
                 node_els = getElementsByTagName graph ''node'';
                 edge_els = getElementsByTagName graph ''edge''
             in elements_by_tag ''key'' document = key_els \<and>
                elements_by_tag ''node'' document = node_els \<and>
                elements_by_tag ''edge'' document = edge_els \<and>
                (\<forall>k \<in> set key_els. getAttribute k ''attr.type'' \<in> set (keys type_map)) \<and>
                distinct (map (\<lambda>k. getAttribute k ''id'') key_els) \<and>
                distinct (map (\<lambda>k. getAttribute k ''attr.name'') node_keys) \<and>
                distinct (map (\<lambda>k. getAttribute k ''attr.name'') edge_keys) \<and>
                (\<forall>n \<in> set node_els. \<forall>d \<in> set (getElementsByTagName n ''data'').
                    data_element_ok node_keys d) \<and>
                (\<forall>e \<in> set edge_els. \<forall>d \<in> set (getElementsByTagName e ''data'').
                    data_element_ok edge_keys d) \<and>
                (\<forall>e \<in> set edge_els.
                    getAttribute e ''source'' \<in> set (map (\<lambda>n. getAttribute n ''id'') node_els) \<and>
                    getAttribute e ''target'' \<in> set (map (\<lambda>n. getAttribute n ''id'') node_els)))))"

text \<open>
  A document for evaluation: the key identifiers \<^verbatim>\<open>d10\<close> and \<^verbatim>\<open>d2\<close> sort in this
  order while their names \<^verbatim>\<open>zeta\<close> and \<^verbatim>\<open>alpha\<close> sort the other way round.
\<close>

definition example_document :: "xml_node list" where
  "example_document =
    [Element ''graphml'' []
      [Element ''key'' [(''id'', ''d2''), (''for'', ''node''), (''attr.name'', ''alpha''),
                        (''attr.type'', ''int'')] [],
       Element ''key'' [(''id'', ''d10''), (''for'', ''node''), (''attr.name'', ''zeta''),
                        (''attr.type'', ''string'')] [],
       Element ''key'' [(''id'', ''d1''), (''for'', ''edge''), (''attr.name'', ''weight''),
                        (''attr.type'', ''double'')] [],
       Element ''graph'' [(''id'', ''G'')]
        [Element ''node'' [(''id'', ''n0'')]
           [Element ''data'' [(''key'', ''d10'')] [CharData ''x''],
            Element ''data'' [(''key'', ''d2'')] []],
         Element ''node'' [(''id'', ''n1'')] [],
         Element ''edge'' [(''source'', ''n0''), (''target'', ''n1'')]
           [Element ''data'' [(''key'', ''d1'')] [CharData ''0.5'']]]]]"


section \<open>Reserved column names\<close>

text \<open>
  The reserved names \<^verbatim>\<open>ID_COLUMN_NAME\<close>, \<^verbatim>\<open>LABEL_COLUMN_NAME\<close>,
  \<^verbatim>\<open>SOURCE_COLUMN_NAME\<close> and \<^verbatim>\<open>TARGET_COLUMN_NAME\<close> are imported from the module
  \<^verbatim>\<open>defaults\<close>, whose text is not part of the sources at hand. They are kept as
  parameters: every function that reads one of them takes the record below.
  \<open>example_defaults\<close> is one instance, with the names the specification uses in its
  examples; it serves only to evaluate the functions on concrete inputs.
\<close>

record defaults =
  ID_COLUMN_NAME :: string
  LABEL_COLUMN_NAME :: string
  SOURCE_COLUMN_NAME :: string
  TARGET_COLUMN_NAME :: string

definition example_defaults :: defaults where
  "example_defaults =
    \<lparr>ID_COLUMN_NAME = ''id'', LABEL_COLUMN_NAME = ''label'',
     SOURCE_COLUMN_NAME = ''source'', TARGET_COLUMN_NAME = ''target''\<rparr>"

section \<open>Table extractor\<close>

text \<open>
  A \<^verbatim>\<open>networkx\<close> graph is read through \<^verbatim>\<open>graph.nodes(data=True)\<close> and
  \<^verbatim>\<open>graph.edges(data=True)\<close> only: a list of nodes with their attribute
  dictionaries, and a list of edges (source, target, attribute dictionary).
\<close>

type_synonym attrs = "(string, pyval) dict"

record nx_graph =
  nodelist :: "(pyval \<times> attrs) list"
  edgelist :: "(pyval \<times> pyval \<times> attrs) list"

text \<open>
  \<^verbatim>\<open>set().union(*(d.keys() for ... in ...))\<close>: the union of the key sets. A Python set
  has no defined iteration order, so the dictionary comprehension over it is a map
  without order, and so is the mapping handed to \<^verbatim>\<open>pa.Table.from_pydict\<close>.
\<close>

type_synonym column_table = "string \<rightharpoonup> pyval list"

definition all_attrs :: "attrs list \<Rightarrow> string set" where
  "all_attrs ds = (\<Union>d \<in> set ds. set (keys d))"

text \<open>\<^verbatim>\<open>d.get(k, nan)\<close>\<close>

definition get_or_nan :: "attrs \<Rightarrow> string \<Rightarrow> pyval" where
  "get_or_nan d k = (case map_of d k of Some v \<Rightarrow> v | None \<Rightarrow> PyNaN)"

text \<open>\<^verbatim>\<open>{k: [d.get(k, nan) for ... d in ...] for k in all_attrs}\<close>\<close>

definition attr_columns :: "attrs list \<Rightarrow> column_table" where
  "attr_columns ds =
    (\<lambda>k. if k \<in> all_attrs ds then Some (map (\<lambda>d. get_or_nan d k) ds) else None)"

text \<open>
  \<^verbatim>\<open>pa.Table.from_pydict\<close> belongs to the library \<^verbatim>\<open>pyarrow\<close>. It turns every
  column into an array of one type, which it infers from the cells, and raises when
  there is none:
  \<^item> a column with a string in it must hold strings only; a string beside a number or
    beside the not-a-number object is refused;
  \<^item> a column of integers and not-a-number objects becomes a column of doubles; an
    integer is refused when a double does not hold it exactly, that is outside
    the range from \<open>- (2 ^ 53)\<close> to \<open>2 ^ 53\<close>;
  \<^item> a column of integers only becomes a column of signed 64-bit integers, or of
    unsigned ones when a cell is too large for the signed type; an integer outside both
    ranges is refused, and so is a negative one beside one that needs the unsigned
    type;
  \<^item> a column without cells is accepted.
\<close>

fun is_str :: "pyval \<Rightarrow> bool" where
  "is_str (PyStr s) = True"
| "is_str v = False"

fun is_nan :: "pyval \<Rightarrow> bool" where
  "is_nan PyNaN = True"
| "is_nan v = False"

fun int_within :: "int \<Rightarrow> int \<Rightarrow> pyval \<Rightarrow> bool" where
  "int_within lo hi (PyInt i) = (lo \<le> i \<and> i \<le> hi)"
| "int_within lo hi v = True"

definition arrow_accepts :: "pyval list \<Rightarrow> bool" where
  "arrow_accepts col =
    (if list_ex is_str col then list_all is_str col
     else if list_ex is_nan col then list_all (int_within (- (2 ^ 53)) (2 ^ 53)) col
     else list_all (int_within (- (2 ^ 63)) (2 ^ 63 - 1)) col \<or>
          list_all (int_within 0 (2 ^ 64 - 1)) col)"

text \<open>
  The table that \<^verbatim>\<open>from_pydict\<close> returns is given by the mapping it was built from:
  the same column names, and in every column the same cells, an integer of a column of
  doubles being the double of the same value. The names of the mapping are handed
  over with it. When several columns are refused, the one that is reported depends on
  the order of the mapping, which the set \<^verbatim>\<open>all_attrs\<close> leaves open; the model has
  one error for all of them.
\<close>

definition from_pydict :: "string set \<Rightarrow> column_table \<Rightarrow> error + column_table" where
  "from_pydict names mapping =
    (if \<forall>k \<in> names. case mapping k of None \<Rightarrow> True | Some col \<Rightarrow> arrow_accepts col
     then Inr mapping else Inl ArrowError)"

text \<open>
  \<^verbatim>\<open>extract_edges_as_table\<close>. Both guards of the source test
  \<^verbatim>\<open>SOURCE_COLUMN_NAME in all_attrs\<close>; the second one carries the message about the
  target name. \<^verbatim>\<open>edge_lists.update(edge_attr)\<close> lets an attribute column replace a
  reserved column of the same name.
\<close>

definition extract_edges_as_table :: "defaults \<Rightarrow> nx_graph \<Rightarrow> error + column_table" where
  "extract_edges_as_table cfg graph =
    (let edges = edgelist graph;
         source_nodes = map (\<lambda>(s, t, d). s) edges;
         target_nodes = map (\<lambda>(s, t, d). t) edges;
         attr_names = all_attrs (map (\<lambda>(s, t, d). d) edges)
     in
       if SOURCE_COLUMN_NAME cfg \<in> attr_names then
         Inl (NetworkXError
           (''Source name '' @ SOURCE_COLUMN_NAME cfg @ '' is an edge attribute name''))
       else if SOURCE_COLUMN_NAME cfg \<in> attr_names then
         Inl (NetworkXError
           (''Target name '' @ SOURCE_COLUMN_NAME cfg @ '' is an edge attribute name''))
       else
         let edge_attr = attr_columns (map (\<lambda>(s, t, d). d) edges);
             edge_lists = Map.empty(SOURCE_COLUMN_NAME cfg \<mapsto> source_nodes,
                                    TARGET_COLUMN_NAME cfg \<mapsto> target_nodes)
         in from_pydict ({SOURCE_COLUMN_NAME cfg, TARGET_COLUMN_NAME cfg} \<union> attr_names)
              (edge_lists ++ edge_attr))"

text \<open>
  \<^verbatim>\<open>extract_nodes_as_table\<close>. The guards test the identifier name and the edges'
  source name; \<^verbatim>\<open>node_attr[ID_COLUMN_NAME] = node_ids\<close> is written last.
\<close>

definition extract_nodes_as_table :: "defaults \<Rightarrow> nx_graph \<Rightarrow> error + column_table" where
  "extract_nodes_as_table cfg graph =
    (let nodes = nodelist graph;
         node_ids = map (\<lambda>(n, d). n) nodes;
         attr_names = all_attrs (map (\<lambda>(n, d). d) nodes)
     in
       if ID_COLUMN_NAME cfg \<in> attr_names then
         Inl (NetworkXError
           (''Id column name '' @ ID_COLUMN_NAME cfg @ '' is an node attribute name''))
       else if SOURCE_COLUMN_NAME cfg \<in> attr_names then
         Inl (NetworkXError
           (''Target name '' @ SOURCE_COLUMN_NAME cfg @ '' is an edge attribute name''))
       else
         let node_attr = attr_columns (map (\<lambda>(n, d). d) nodes)
         in from_pydict (insert (ID_COLUMN_NAME cfg) attr_names)
              (node_attr(ID_COLUMN_NAME cfg \<mapsto> node_ids)))"

text \<open>A small graph for evaluation: node \<open>A\<close> has a colour, node \<open>B\<close> has none.\<close>

definition colour_graph :: nx_graph where
  "colour_graph =
    \<lparr>nodelist = [(PyStr ''A'', [(''color'', PyStr ''red'')]), (PyStr ''B'', [])],
     edgelist = [(PyStr ''A'', PyStr ''B'', [(''weight'', PyInt 3)]),
                 (PyStr ''B'', PyStr ''A'', [])]\<rparr>"


section \<open>Schema-mapping inserter\<close>

text \<open>
  A batch is \<^verbatim>\<open>batch.to_pydict()\<close>: a dictionary from column name to the list of the
  column's cells. A record is one row, a dictionary from column name to cell. A column
  mapping is the dictionary \<^verbatim>\<open>column_map\<close> of a schema, read in insertion order by
  \<^verbatim>\<open>column_map.items()\<close>.
\<close>

type_synonym batch = "(string, pyval list) dict"
type_synonym record_row = "(string, pyval) dict"
type_synonym column_map = "(string, string) dict"

text \<open>The two exceptions of the inserter, with the messages as the source writes them.\<close>

definition nodes_dup :: error where
  "nodes_dup = Exception ''Duplicate nodes column name after mapping: {v}''"

definition edges_dup :: error where
  "edges_dup = Exception ''Duplicate edges column name after mapping: {v}''"

text \<open>
  The loop over \<^verbatim>\<open>column_map.items()\<close> of the nodes branch. A pair whose source
  column is absent from the batch is skipped. The pair identifier \<open>\<rightarrow>\<close> label reads the
  column with \<^verbatim>\<open>get\<close> and writes it under the label name with no test; every other pair
  pops the source column, raises when the target name is a key of what is left, and
  writes the column under the target name.
\<close>

fun map_nodes_columns :: "defaults \<Rightarrow> column_map \<Rightarrow> batch \<Rightarrow> error + batch" where
  "map_nodes_columns cfg [] batch_dict = Inr batch_dict"
| "map_nodes_columns cfg ((k, v) # rest) batch_dict =
    (case map_of batch_dict k of
       None \<Rightarrow> map_nodes_columns cfg rest batch_dict
     | Some data \<Rightarrow>
         if k = ID_COLUMN_NAME cfg \<and> v = LABEL_COLUMN_NAME cfg then
           map_nodes_columns cfg rest (AList.update v data batch_dict)
         else
           let popped = AList.delete k batch_dict in
           if v \<in> set (keys popped) then
             Inl nodes_dup
           else map_nodes_columns cfg rest (AList.update v data popped))"

text \<open>The loop of the edges branch: the same without the identifier/label case.\<close>

fun map_edges_columns :: "column_map \<Rightarrow> batch \<Rightarrow> error + batch" where
  "map_edges_columns [] batch_dict = Inr batch_dict"
| "map_edges_columns ((k, v) # rest) batch_dict =
    (case map_of batch_dict k of
       None \<Rightarrow> map_edges_columns rest batch_dict
     | Some data \<Rightarrow>
         let popped = AList.delete k batch_dict in
         if v \<in> set (keys popped) then
           Inl edges_dup
         else map_edges_columns rest (AList.update v data popped))"

text \<open>
  \<^verbatim>\<open>zip(*batch_dict.values())\<close>: the rows of the columns, as many as the shortest
  column has cells, and none when there is no column.
\<close>

function zip_star :: "'a list list \<Rightarrow> 'a list list" where
  "zip_star cols =
    (if cols = [] \<or> [] \<in> set cols then []
     else map hd cols # zip_star (map tl cols))"
  by pat_completeness auto
termination
proof (relation "measure (\<lambda>cols. length (hd cols))")
  show "wf (measure (\<lambda>cols. length (hd cols)))" by simp
next
  fix cols :: "'a list list"
  assume "\<not> (cols = [] \<or> [] \<in> set cols)"
  then obtain c cs where cols: "cols = c # cs" and c: "c \<noteq> []"
    by (cases cols) auto
  then have "length (hd (map tl cols)) < length (hd cols)"
    by (cases c) simp_all
  then show "(map tl cols, cols) \<in> measure (\<lambda>cols. length (hd cols))"
    by simp
qed

declare zip_star.simps [simp del]

text \<open>\<^verbatim>\<open>[dict(zip(batch_dict, t)) for t in zip(*batch_dict.values())]\<close>\<close>

definition to_records :: "batch \<Rightarrow> record_row list" where
  "to_records batch_dict =
    map (\<lambda>t. zip (keys batch_dict) t) (zip_star (dict_values batch_dict))"

text \<open>
  The object \<^verbatim>\<open>network_data\<close> belongs to the class \<^verbatim>\<open>NetworkData\<close> of the module
  \<^verbatim>\<open>metadata_models\<close>, which is not part of the sources at hand. The inserter only
  calls its two methods, so they are parameters of the model: \<^verbatim>\<open>insert_nodes\<close> takes
  the store and the records, \<^verbatim>\<open>insert_edges\<close> also takes the set
  \<^verbatim>\<open>existing_node_ids\<close> and returns a collection of node identifiers. A call either
  raises, leaving some store behind, or returns.
\<close>

record 's network_data_ops =
  insert_nodes :: "'s \<Rightarrow> record_row list \<Rightarrow> (error \<times> 's) + 's"
  insert_edges :: "'s \<Rightarrow> record_row list \<Rightarrow> pyval set \<Rightarrow> (error \<times> 's) + ('s \<times> pyval set)"

text \<open>
  The state of the inserter between two batches: the store and the set
  \<^verbatim>\<open>added_node_ids\<close>. An exception ends the run; what the store holds at that moment
  stays, so a failure carries the store.
\<close>

type_synonym 's inserter_state = "'s \<times> pyval set"
type_synonym 's inserter_result = "(error \<times> 's) + 's inserter_state"

text \<open>\<^verbatim>\<open>column_map = schema.column_map if schema else {}\<close>\<close>

definition schema_column_map :: "column_map option \<Rightarrow> column_map" where
  "schema_column_map schema = (case schema of Some cm \<Rightarrow> cm | None \<Rightarrow> [])"

text \<open>The body of the loop over the batches of the nodes table.\<close>

definition insert_nodes_batch ::
  "defaults \<Rightarrow> 's network_data_ops \<Rightarrow> column_map option \<Rightarrow> 's inserter_state \<Rightarrow> batch
     \<Rightarrow> 's inserter_result" where
  "insert_nodes_batch cfg ops nodes_schema st batch_dict =
    (case st of (network_data, added_node_ids) \<Rightarrow>
      (case map_nodes_columns cfg (schema_column_map nodes_schema) batch_dict of
         Inl e \<Rightarrow> Inl (e, network_data)
       | Inr mapped \<Rightarrow>
          (case map_of mapped (ID_COLUMN_NAME cfg) of
             None \<Rightarrow> Inl (KeyError (ID_COLUMN_NAME cfg), network_data)
           | Some ids \<Rightarrow>
              (case insert_nodes ops network_data (to_records mapped) of
                 Inl failure \<Rightarrow> Inl failure
               | Inr network_data' \<Rightarrow> Inr (network_data', added_node_ids \<union> set ids)))))"

text \<open>The body of the loop over the batches of the edges table.\<close>

definition insert_edges_batch ::
  "'s network_data_ops \<Rightarrow> column_map option \<Rightarrow> 's inserter_state \<Rightarrow> batch
     \<Rightarrow> 's inserter_result" where
  "insert_edges_batch ops edges_schema st batch_dict =
    (case st of (network_data, added_node_ids) \<Rightarrow>
      (case map_edges_columns (schema_column_map edges_schema) batch_dict of
         Inl e \<Rightarrow> Inl (e, network_data)
       | Inr mapped \<Rightarrow>
          (case insert_edges ops network_data (to_records mapped) added_node_ids of
             Inl failure \<Rightarrow> Inl failure
           | Inr (network_data', all_node_ids) \<Rightarrow>
               Inr (network_data', added_node_ids \<union> all_node_ids))))"

text \<open>A \<^verbatim>\<open>for\<close> loop over batches that an exception leaves.\<close>

fun for_batches ::
  "('s inserter_state \<Rightarrow> batch \<Rightarrow> 's inserter_result) \<Rightarrow> batch list \<Rightarrow> 's inserter_state
     \<Rightarrow> 's inserter_result" where
  "for_batches body [] st = Inr st"
| "for_batches body (b # bs) st =
    (case body st b of
       Inl failure \<Rightarrow> Inl failure
     | Inr st' \<Rightarrow> for_batches body bs st')"

text \<open>
  \<^verbatim>\<open>insert_table_data_into_network_graph\<close>. A table is given by the list of batches
  that \<^verbatim>\<open>to_batches(chunk_size)\<close> yields, each converted by \<^verbatim>\<open>to_pydict\<close>; how
  \<^verbatim>\<open>pyarrow\<close> cuts a table into batches is outside the module. The nodes table is
  optional. The Python function returns nothing; the model returns the store and the
  final value of \<^verbatim>\<open>added_node_ids\<close>.
\<close>

definition insert_table_data_into_network_graph ::
  "defaults \<Rightarrow> 's network_data_ops \<Rightarrow> 's \<Rightarrow> batch list \<Rightarrow> column_map option
     \<Rightarrow> batch list option \<Rightarrow> column_map option \<Rightarrow> 's inserter_result" where
  "insert_table_data_into_network_graph cfg ops network_data edges_table edges_schema
       nodes_table nodes_schema =
    (let start = (network_data, {});
         after_nodes =
           (case nodes_table of
              None \<Rightarrow> Inr start
            | Some batches \<Rightarrow> for_batches (insert_nodes_batch cfg ops nodes_schema) batches start)
     in case after_nodes of
          Inl failure \<Rightarrow> Inl failure
        | Inr st \<Rightarrow> for_batches (insert_edges_batch ops edges_schema) edges_table st)"

section \<open>The relational store\<close>

text \<open>
  Modelled from the spec: the class \<^verbatim>\<open>NetworkData\<close> with its methods
  \<^verbatim>\<open>insert_nodes\<close> and \<^verbatim>\<open>insert_edges\<close> is missing from the sources. The
  specification describes the store as two tables, nodes and edges;
  \<^verbatim>\<open>insert_nodes(*records)\<close> adds the records to the nodes table;
  \<^verbatim>\<open>insert_edges(*records, existing_node_ids)\<close> takes edge records with the required
  source and target identifiers, creates a node for every endpoint identifier that is
  not among \<^verbatim>\<open>existing_node_ids\<close>, adds the records to the edges table and returns
  the newly created identifiers. An edge record without source or target is a
  store-level error, and nothing is written then.
\<close>

record store =
  node_rows :: "record_row list"
  edge_rows :: "record_row list"

definition empty_store :: store where
  "empty_store = \<lparr>node_rows = [], edge_rows = []\<rparr>"

text \<open>
  Modelled from the spec: \<^verbatim>\<open>insert_nodes(*records)\<close>, missing from the sources, adds
  the records to the nodes table.
\<close>

definition store_insert_nodes :: "store \<Rightarrow> record_row list \<Rightarrow> (error \<times> store) + store" where
  "store_insert_nodes s rows = Inr (s\<lparr>node_rows := node_rows s @ rows\<rparr>)"

text \<open>
  Modelled from the spec: the endpoint identifiers of edge records, their cells in the
  reserved source and target columns.
\<close>

definition edge_endpoints :: "defaults \<Rightarrow> record_row list \<Rightarrow> pyval list" where
  "edge_endpoints cfg rows =
    List.map_filter (\<lambda>r. map_of r (SOURCE_COLUMN_NAME cfg)) rows @
    List.map_filter (\<lambda>r. map_of r (TARGET_COLUMN_NAME cfg)) rows"

text \<open>
  Modelled from the spec: \<^verbatim>\<open>insert_edges(*records, existing_node_ids)\<close>, missing
  from the sources, creates the endpoints that are not among \<^verbatim>\<open>existing_node_ids\<close>,
  adds the records to the edges table and returns the identifiers it has created.
\<close>

definition store_insert_edges ::
  "defaults \<Rightarrow> store \<Rightarrow> record_row list \<Rightarrow> pyval set \<Rightarrow> (error \<times> store) + (store \<times> pyval set)" where
  "store_insert_edges cfg s rows existing_node_ids =
    (if list_ex (\<lambda>r. map_of r (SOURCE_COLUMN_NAME cfg) = None \<or>
                      map_of r (TARGET_COLUMN_NAME cfg) = None) rows
     then Inl (StoreError ''edge record without source or target'', s)
     else
       let new_ids = remdups (filter (\<lambda>i. i \<notin> existing_node_ids) (edge_endpoints cfg rows))
       in Inr (s\<lparr>node_rows := node_rows s @ map (\<lambda>i. [(ID_COLUMN_NAME cfg, i)]) new_ids,
                 edge_rows := edge_rows s @ rows\<rparr>,
               set new_ids))"

definition store_ops :: "defaults \<Rightarrow> store network_data_ops" where
  "store_ops cfg =
    \<lparr>insert_nodes = store_insert_nodes, insert_edges = store_insert_edges cfg\<rparr>"

text \<open>
  Batches that the store takes. The cells of a column of a batch, none when the batch
  has no such column; the batch after its column mapping; an edges batch is complete
  when the mapping raises nothing and the mapped batch has the source and the target
  column, all its columns as long as the source column; a nodes batch is complete when
  the mapping raises nothing and the mapped batch has the identifier column. The
  endpoints of an edges batch are the cells of its source and target columns after the
  mapping; the identifiers of a nodes table are the cells of the identifier columns of
  its batches after the mapping.
\<close>

definition column_cells :: "batch \<Rightarrow> string \<Rightarrow> pyval list" where
  "column_cells b k = (case map_of b k of Some col \<Rightarrow> col | None \<Rightarrow> [])"

definition mapped_edges_batch :: "column_map option \<Rightarrow> batch \<Rightarrow> batch" where
  "mapped_edges_batch edges_schema b =
    (case map_edges_columns (schema_column_map edges_schema) b of
       Inr mapped \<Rightarrow> mapped
     | Inl e \<Rightarrow> [])"

definition mapped_nodes_batch :: "defaults \<Rightarrow> column_map option \<Rightarrow> batch \<Rightarrow> batch" where
  "mapped_nodes_batch cfg nodes_schema b =
    (case map_nodes_columns cfg (schema_column_map nodes_schema) b of
       Inr mapped \<Rightarrow> mapped
     | Inl e \<Rightarrow> [])"

definition edges_batch_complete :: "defaults \<Rightarrow> column_map option \<Rightarrow> batch \<Rightarrow> bool" where
  "edges_batch_complete cfg edges_schema b =
    (let mapped = mapped_edges_batch edges_schema b in
     map_edges_columns (schema_column_map edges_schema) b = Inr mapped \<and>
     SOURCE_COLUMN_NAME cfg \<in> set (keys mapped) \<and>
     TARGET_COLUMN_NAME cfg \<in> set (keys mapped) \<and>
     list_all (\<lambda>c. length c = length (column_cells mapped (SOURCE_COLUMN_NAME cfg)))
       (dict_values mapped))"

definition nodes_batch_complete :: "defaults \<Rightarrow> column_map option \<Rightarrow> batch \<Rightarrow> bool" where
  "nodes_batch_complete cfg nodes_schema b =
    (let mapped = mapped_nodes_batch cfg nodes_schema b in
     map_nodes_columns cfg (schema_column_map nodes_schema) b = Inr mapped \<and>
     ID_COLUMN_NAME cfg \<in> set (keys mapped))"

definition batch_endpoints :: "defaults \<Rightarrow> column_map option \<Rightarrow> batch \<Rightarrow> pyval set" where
  "batch_endpoints cfg edges_schema b =
    set (column_cells (mapped_edges_batch edges_schema b) (SOURCE_COLUMN_NAME cfg)) \<union>
    set (column_cells (mapped_edges_batch edges_schema b) (TARGET_COLUMN_NAME cfg))"

definition table_node_ids ::
  "defaults \<Rightarrow> column_map option \<Rightarrow> batch list option \<Rightarrow> pyval set" where
  "table_node_ids cfg nodes_schema nodes_table =
    (case nodes_table of
       None \<Rightarrow> {}
     | Some batches \<Rightarrow>
         (\<Union>b \<in> set batches.
            set (column_cells (mapped_nodes_batch cfg nodes_schema b) (ID_COLUMN_NAME cfg))))"

text \<open>
  For evaluation: an edges table of two batches whose columns \<^verbatim>\<open>from\<close> and
  \<^verbatim>\<open>to\<close> the mapping renames to the reserved names.
\<close>

definition example_edges_table :: "batch list" where
  "example_edges_table =
    [[(''from'', [PyStr ''n1'', PyStr ''n2'']), (''to'', [PyStr ''n2'', PyStr ''n3''])],
     [(''from'', [PyStr ''n3'']), (''to'', [PyStr ''n4''])]]"

definition example_edges_schema :: "column_map option" where
  "example_edges_schema = Some [(''from'', ''source''), (''to'', ''target'')]"

section \<open>Tabular view adapter\<close>

text \<open>
  \<^verbatim>\<open>NetworkDataTabularWrap\<close> reads one table of the store through SQL. A table has its
  column names and its rows; a row of \<^verbatim>\<open>SELECT *\<close> is a tuple read by position. The
  database maps a table name to its table. The adapter holds a reference to the store,
  not a copy: every query sees the database as it is at the time of the call, so the
  database is an argument of every method.
\<close>

record sql_table =
  columns :: "string list"
  table_rows :: "pyval list list"

type_synonym database = "string \<rightharpoonup> sql_table"

text \<open>
  The adapter: \<^verbatim>\<open>_table_name\<close>, the value of its table type, and the two fields
  \<^verbatim>\<open>_num_rows\<close> and \<^verbatim>\<open>_column_names\<close> that it inherits from the class
  \<^verbatim>\<open>TabularWrap\<close> of the library \<^verbatim>\<open>kiara\<close>. The constructor of the base class
  sets both to \<^verbatim>\<open>None\<close>.
\<close>

record tabular_wrap =
  table_name :: string
  cached_num_rows :: "int option"
  cached_column_names :: "string list option"

definition NetworkDataTabularWrap :: "string \<Rightarrow> tabular_wrap" where
  "NetworkDataTabularWrap table_type =
    \<lparr>table_name = table_type, cached_num_rows = None, cached_column_names = None\<rparr>"

text \<open>
  The query text is kept as its parts: the table, the \<^verbatim>\<open>LIMIT\<close> and the optional
  \<^verbatim>\<open>OFFSET\<close>.
\<close>

record select_query =
  q_table :: string
  q_limit :: int
  q_offset :: "int option"

text \<open>
  What the engine answers to \<^verbatim>\<open>SELECT * FROM t LIMIT l OFFSET o\<close>: the rows after the
  first \<open>o\<close>, at most \<open>l\<close> of them; a negative limit is no limit (SQLite). A missing
  table is an error of the engine.
\<close>

definition run_select :: "database \<Rightarrow> select_query \<Rightarrow> error + pyval list list" where
  "run_select db q =
    (case db (q_table q) of
       None \<Rightarrow> Inl (StoreError (''no such table: '' @ q_table q))
     | Some t \<Rightarrow>
         let skipped = (case q_offset q of
                          None \<Rightarrow> table_rows t
                        | Some m \<Rightarrow> drop (nat m) (table_rows t))
         in Inr (if q_limit q < 0 then skipped else take (nat (q_limit q)) skipped))"

text \<open>\<^verbatim>\<open>retrieve_number_of_rows\<close>: \<^verbatim>\<open>SELECT count(*)\<close>.\<close>

definition retrieve_number_of_rows :: "database \<Rightarrow> tabular_wrap \<Rightarrow> error + int" where
  "retrieve_number_of_rows db w =
    (case db (table_name w) of
       None \<Rightarrow> Inl (StoreError (''no such table: '' @ table_name w))
     | Some t \<Rightarrow> Inr (int (length (table_rows t))))"

text \<open>\<^verbatim>\<open>retrieve_column_names\<close>: the names the inspector lists for the table.\<close>

definition retrieve_column_names :: "database \<Rightarrow> tabular_wrap \<Rightarrow> error + string list" where
  "retrieve_column_names db w =
    (case db (table_name w) of
       None \<Rightarrow> Inl (StoreError (''no such table: '' @ table_name w))
     | Some t \<Rightarrow> Inr (columns t))"

text \<open>
  The properties \<^verbatim>\<open>num_rows\<close> and \<^verbatim>\<open>column_names\<close> of the base class: when the
  field is \<^verbatim>\<open>None\<close> the value is retrieved and stored in the field; the field is
  returned. A value once stored is returned by every later call, whatever the database
  holds by then. The result is the outcome and the adapter after the call.
\<close>

definition num_rows :: "database \<Rightarrow> tabular_wrap \<Rightarrow> (error + int) \<times> tabular_wrap" where
  "num_rows db w =
    (case cached_num_rows w of
       Some n \<Rightarrow> (Inr n, w)
     | None \<Rightarrow>
        (case retrieve_number_of_rows db w of
           Inl e \<Rightarrow> (Inl e, w)
         | Inr n \<Rightarrow> (Inr n, w\<lparr>cached_num_rows := Some n\<rparr>)))"

definition column_names :: "database \<Rightarrow> tabular_wrap \<Rightarrow> (error + string list) \<times> tabular_wrap" where
  "column_names db w =
    (case cached_column_names w of
       Some cs \<Rightarrow> (Inr cs, w)
     | None \<Rightarrow>
        (case retrieve_column_names db w of
           Inl e \<Rightarrow> (Inl e, w)
         | Inr cs \<Rightarrow> (Inr cs, w\<lparr>cached_column_names := Some cs\<rparr>)))"

text \<open>
  The two loops that fill \<^verbatim>\<open>result_dict\<close>: one empty list per column name, then
  \<^verbatim>\<open>r[i]\<close> appended for every row and every column. \<^verbatim>\<open>r[i]\<close> raises
  \<^verbatim>\<open>IndexError\<close> on a row that is too short. Column names of a table are distinct.
\<close>

definition fill_result_dict ::
  "string list \<Rightarrow> pyval list list \<Rightarrow> error + (string, pyval list) dict" where
  "fill_result_dict names result =
    (if list_all (\<lambda>r. length names \<le> length r) result
     then Inr (map (\<lambda>(i, cn). (cn, map (\<lambda>r. r ! i) result)) (enumerate 0 names))
     else Inl IndexError)"

text \<open>
  \<^verbatim>\<open>slice(offset, length)\<close>. \<^verbatim>\<open>if length:\<close> is false for \<^verbatim>\<open>None\<close> and for
  \<^verbatim>\<open>0\<close>; the limit is then \<^verbatim>\<open>self.num_rows\<close>. The column names are
  \<^verbatim>\<open>self.column_names\<close>, read after the query has run. The returned wrapper is
  given by its dictionary; with it comes the adapter after the call.
\<close>

definition slice ::
  "database \<Rightarrow> tabular_wrap \<Rightarrow> int \<Rightarrow> int option
     \<Rightarrow> (error + (string, pyval list) dict) \<times> tabular_wrap" where
  "slice db w offset length_arg =
    (case (case length_arg of
             Some l \<Rightarrow> if l \<noteq> 0 then (Inr l, w) else num_rows db w
           | None \<Rightarrow> num_rows db w) of
       (Inl e, w1) \<Rightarrow> (Inl e, w1)
     | (Inr limit, w1) \<Rightarrow>
        (let query = \<lparr>q_table = table_name w1, q_limit = limit,
                       q_offset = (if offset > 0 then Some offset else None)\<rparr>
         in case run_select db query of
              Inl e \<Rightarrow> (Inl e, w1)
            | Inr result \<Rightarrow>
               (case column_names db w1 of
                  (Inl e, w2) \<Rightarrow> (Inl e, w2)
                | (Inr names, w2) \<Rightarrow> (fill_result_dict names result, w2))))"

text \<open>
  For evaluation: a table of three rows, and the same table at an earlier time, when it
  had only the first row.
\<close>

definition example_db :: database where
  "example_db =
    [''nodes'' \<mapsto>
      \<lparr>columns = [''id'', ''label''],
       table_rows = [[PyInt 1, PyStr ''a''], [PyInt 2, PyStr ''b''], [PyInt 3, PyStr ''c'']]\<rparr>]"

definition earlier_db :: database where
  "earlier_db =
    [''nodes'' \<mapsto> \<lparr>columns = [''id'', ''label''], table_rows = [[PyInt 1, PyStr ''a'']]\<rparr>]"
section \<open>Properties of the type mapper\<close>

lemma convert_unknown:
  "data_type \<notin> set (keys type_map) \<Longrightarrow>
     convert_graphml_type_to_sqlite data_type = Inl (KeyError data_type)"
  unfolding convert_graphml_type_to_sqlite_def keys_def
  by (simp add: map_of_eq_None_iff [THEN iffD2])

text \<open>
  Claim C5. The type mapper sends \<^verbatim>\<open>boolean\<close>, \<^verbatim>\<open>int\<close> and \<^verbatim>\<open>long\<close> to
  \<^verbatim>\<open>INTEGER\<close>, \<^verbatim>\<open>float\<close> and \<^verbatim>\<open>double\<close> to \<^verbatim>\<open>REAL\<close>, \<^verbatim>\<open>string\<close> to
  \<^verbatim>\<open>TEXT\<close>, and every string outside these six names fails with a lookup error
  (\<^verbatim>\<open>KeyError\<close>).
\<close>

theorem type_mapper_total_spec:
  "convert_graphml_type_to_sqlite ''boolean'' = Inr ''INTEGER'' \<and>
   convert_graphml_type_to_sqlite ''int'' = Inr ''INTEGER'' \<and>
   convert_graphml_type_to_sqlite ''long'' = Inr ''INTEGER'' \<and>
   convert_graphml_type_to_sqlite ''float'' = Inr ''REAL'' \<and>
   convert_graphml_type_to_sqlite ''double'' = Inr ''REAL'' \<and>
   convert_graphml_type_to_sqlite ''string'' = Inr ''TEXT'' \<and>
   (\<forall>s. s \<notin> {''boolean'', ''int'', ''long'', ''float'', ''double'', ''string''} \<longrightarrow>
        convert_graphml_type_to_sqlite s = Inl (KeyError s))"
proof (intro conjI allI impI)
  fix s :: string
  assume "s \<notin> {''boolean'', ''int'', ''long'', ''float'', ''double'', ''string''}"
  then have "s \<notin> set (keys type_map)"
    by (simp add: keys_def type_map_def)
  then show "convert_graphml_type_to_sqlite s = Inl (KeyError s)"
    by (rule convert_unknown)
qed (simp_all add: convert_graphml_type_to_sqlite_def type_map_def)

theorem type_mapper_total_spec_witness:
  "convert_graphml_type_to_sqlite ''integer'' = Inl (KeyError ''integer'') \<and>
   convert_graphml_type_to_sqlite ''long'' = Inr ''INTEGER''"
  using type_mapper_total_spec by simp


section \<open>Properties of the table extractor\<close>

lemma attr_columns_dom: "dom (attr_columns ds) = all_attrs ds"
  by (auto simp: attr_columns_def dom_def)

lemma attr_columns_length:
  "attr_columns ds k = Some col \<Longrightarrow> length col = length ds"
  by (auto simp: attr_columns_def split: if_splits)

lemma attr_columns_nth:
  "k \<in> all_attrs ds \<Longrightarrow> i < length ds \<Longrightarrow>
     \<exists>col. attr_columns ds k = Some col \<and> col ! i = get_or_nan (ds ! i) k"
  by (simp add: attr_columns_def)

lemma get_or_nan_present: "map_of d k = Some v \<Longrightarrow> get_or_nan d k = v"
  by (simp add: get_or_nan_def)

lemma get_or_nan_absent: "map_of d k = None \<Longrightarrow> get_or_nan d k = PyNaN"
  by (simp add: get_or_nan_def)

lemma node_attr_dicts: "map (\<lambda>(n, d). d) nodes = map snd nodes"
  by (simp add: case_prod_unfold)

lemma edge_attr_dicts: "map (\<lambda>(s, t, d). d) edges = map (snd \<circ> snd) edges"
  by (simp add: case_prod_unfold comp_def)

lemma from_pydict_Inr:
  "from_pydict names mapping = Inr t \<Longrightarrow> t = mapping"
  by (simp add: from_pydict_def split: if_splits)

lemma from_pydict_accepts:
  "from_pydict names mapping = Inr t \<Longrightarrow> k \<in> names \<Longrightarrow> mapping k = Some col \<Longrightarrow>
     arrow_accepts col"
  by (auto simp: from_pydict_def split: if_splits)

lemma extract_nodes_Inr:
  assumes "extract_nodes_as_table cfg g = Inr t"
  shows "t = (attr_columns (map snd (nodelist g)))
              (ID_COLUMN_NAME cfg \<mapsto> map fst (nodelist g))"
    and "ID_COLUMN_NAME cfg \<notin> all_attrs (map snd (nodelist g))"
  using assms
  by (auto simp: extract_nodes_as_table_def Let_def node_attr_dicts case_prod_unfold
      dest: from_pydict_Inr split: if_splits)

lemma extract_edges_Inr:
  assumes "extract_edges_as_table cfg g = Inr t"
  shows "t = Map.empty(SOURCE_COLUMN_NAME cfg \<mapsto> map fst (edgelist g),
                       TARGET_COLUMN_NAME cfg \<mapsto> map (fst \<circ> snd) (edgelist g))
             ++ attr_columns (map (snd \<circ> snd) (edgelist g))"
    and "SOURCE_COLUMN_NAME cfg \<notin> all_attrs (map (snd \<circ> snd) (edgelist g))"
  using assms
  by (auto simp: extract_edges_as_table_def Let_def edge_attr_dicts case_prod_unfold comp_def
      dest: from_pydict_Inr split: if_splits)

text \<open>
  The shape of a table that the extraction returns: the reserved column(s) and one
  column for every attribute name that some node (edge) carries; one cell per node
  (edge) in every column; in an attribute column the value of the attribute, or the
  not-a-number object where the node (edge) does not have it.
\<close>

lemma nodes_table_shape:
  assumes ok: "extract_nodes_as_table cfg g = Inr t"
  shows "dom t = insert (ID_COLUMN_NAME cfg) (\<Union>(n, d) \<in> set (nodelist g). fst ` set d)"
    and "\<And>k col. t k = Some col \<Longrightarrow> length col = length (nodelist g)"
    and "\<And>k i v. i < length (nodelist g) \<Longrightarrow> map_of (snd (nodelist g ! i)) k = Some v \<Longrightarrow>
          \<exists>col. t k = Some col \<and> col ! i = v"
    and "\<And>k i col. i < length (nodelist g) \<Longrightarrow> map_of (snd (nodelist g ! i)) k = None \<Longrightarrow>
          t k = Some col \<Longrightarrow> k \<noteq> ID_COLUMN_NAME cfg \<Longrightarrow> col ! i = PyNaN"
proof -
  note t = extract_nodes_Inr [OF ok]
  have attrs: "all_attrs (map snd (nodelist g)) = (\<Union>(n, d) \<in> set (nodelist g). fst ` set d)"
    by (force simp: all_attrs_def keys_def)
  show "dom t = insert (ID_COLUMN_NAME cfg) (\<Union>(n, d) \<in> set (nodelist g). fst ` set d)"
    by (simp add: t(1) attr_columns_dom attrs)
  show "length col = length (nodelist g)" if "t k = Some col" for k col
    using that attr_columns_length [of "map snd (nodelist g)" k col]
    by (auto simp: t(1) split: if_splits)
  show "\<exists>col. t k = Some col \<and> col ! i = v"
    if "i < length (nodelist g)" "map_of (snd (nodelist g ! i)) k = Some v" for k i v
  proof -
    from that(2) have "k \<in> set (keys (snd (nodelist g ! i)))"
      by (auto simp: keys_def dest: map_of_SomeD intro: rev_image_eqI)
    with that(1) have k: "k \<in> all_attrs (map snd (nodelist g))"
      by (auto simp: all_attrs_def intro!: bexI [of _ "nodelist g ! i"])
    with t(2) have "k \<noteq> ID_COLUMN_NAME cfg" by auto
    with attr_columns_nth [OF k, of i] that show ?thesis
      by (simp add: t(1) get_or_nan_def)
  qed
  show "col ! i = PyNaN"
    if "i < length (nodelist g)" "map_of (snd (nodelist g ! i)) k = None" "t k = Some col"
      "k \<noteq> ID_COLUMN_NAME cfg" for k i col
    using that by (auto simp: t(1) attr_columns_def get_or_nan_def split: if_splits)
qed

lemma edges_table_shape:
  assumes ok: "extract_edges_as_table cfg g = Inr t"
  shows "dom t = {SOURCE_COLUMN_NAME cfg, TARGET_COLUMN_NAME cfg}
                   \<union> (\<Union>(s, t, d) \<in> set (edgelist g). fst ` set d)"
    and "\<And>k col. t k = Some col \<Longrightarrow> length col = length (edgelist g)"
    and "\<And>k i v. i < length (edgelist g) \<Longrightarrow>
          map_of (snd (snd (edgelist g ! i))) k = Some v \<Longrightarrow>
          \<exists>col. t k = Some col \<and> col ! i = v"
    and "\<And>k i col. i < length (edgelist g) \<Longrightarrow>
          map_of (snd (snd (edgelist g ! i))) k = None \<Longrightarrow> t k = Some col \<Longrightarrow>
          k \<in> (\<Union>(s, t, d) \<in> set (edgelist g). fst ` set d) \<Longrightarrow> col ! i = PyNaN"
proof -
  note t = extract_edges_Inr [OF ok]
  have attrs: "all_attrs (map (snd \<circ> snd) (edgelist g))
      = (\<Union>(s, t, d) \<in> set (edgelist g). fst ` set d)"
    by (force simp: all_attrs_def keys_def)
  show "dom t = {SOURCE_COLUMN_NAME cfg, TARGET_COLUMN_NAME cfg}
                   \<union> (\<Union>(s, t, d) \<in> set (edgelist g). fst ` set d)"
    unfolding attrs [symmetric] by (subst t(1)) (auto simp: attr_columns_dom)
  show "length col = length (edgelist g)" if "t k = Some col" for k col
    using that attr_columns_length [of "map (snd \<circ> snd) (edgelist g)" k]
    by (subst (asm) t(1)) (auto simp: map_add_def split: if_splits option.splits)
  show "\<exists>col. t k = Some col \<and> col ! i = v"
    if "i < length (edgelist g)" "map_of (snd (snd (edgelist g ! i))) k = Some v" for k i v
  proof -
    from that(2) have "k \<in> set (keys (snd (snd (edgelist g ! i))))"
      by (auto simp: keys_def dest: map_of_SomeD intro: rev_image_eqI)
    with that(1) have k: "k \<in> all_attrs (map (snd \<circ> snd) (edgelist g))"
      by (auto simp: all_attrs_def intro!: bexI [of _ "edgelist g ! i"])
    with attr_columns_nth [OF k, of i] that show ?thesis
      by (subst t(1)) (auto simp: map_add_def get_or_nan_def)
  qed
  show "col ! i = PyNaN"
    if "i < length (edgelist g)" "map_of (snd (snd (edgelist g ! i))) k = None" "t k = Some col"
      "k \<in> (\<Union>(s, t, d) \<in> set (edgelist g). fst ` set d)" for k i col
    using that(1,2,3) that(4) [folded attrs]
    by (subst (asm) t(1)) (auto simp: map_add_def attr_columns_def get_or_nan_def)
qed

text \<open>
  Claim C7. The node table should have a column for every attribute that some node
  carries, with the not-a-number placeholder in the rows of the nodes that lack it.
  Evaluated on the graph in which node \<open>A\<close> has the attribute \<^verbatim>\<open>color\<close> with the
  value \<^verbatim>\<open>red\<close> and node \<open>B\<close> has no attribute: the column built for \<^verbatim>\<open>color\<close>
  holds the value in the row of \<open>A\<close> and the placeholder in the row of \<open>B\<close>, the
  conversion to a table refuses a column with a string beside the placeholder, and the
  extraction raises instead of returning the table.
\<close>

theorem padded_string_column_is_refused:
  "attr_columns (map snd (nodelist colour_graph)) ''color'' = Some [PyStr ''red'', PyNaN] \<and>
   \<not> arrow_accepts [PyStr ''red'', PyNaN] \<and>
   extract_nodes_as_table example_defaults colour_graph = Inl ArrowError"
  by (simp add: extract_nodes_as_table_def example_defaults_def colour_graph_def all_attrs_def
      keys_def attr_columns_def get_or_nan_def from_pydict_def arrow_accepts_def)

text \<open>
  Claim C1. An edge attribute named like the reserved target column should make the
  extraction fail with a naming-conflict error. Evaluated on a graph with one edge that
  carries the attribute \<^verbatim>\<open>target\<close>, the extraction returns a table instead, and the
  attribute column has replaced the column of target nodes: the second guard tests the
  source name a second time.
\<close>

theorem extract_edges_accepts_target_attribute:
  "\<exists>t. extract_edges_as_table example_defaults
      \<lparr>nodelist = [(PyStr ''a'', []), (PyStr ''b'', [])],
       edgelist = [(PyStr ''a'', PyStr ''b'', [(''target'', PyStr ''x'')])]\<rparr> = Inr t \<and>
     t ''source'' = Some [PyStr ''a''] \<and> t ''target'' = Some [PyStr ''x'']"
  by (simp add: extract_edges_as_table_def example_defaults_def all_attrs_def keys_def
      attr_columns_def get_or_nan_def map_add_def from_pydict_def arrow_accepts_def)


section \<open>Properties of the column mapping\<close>


lemma keys_update: "set (keys (AList.update k v d)) = insert k (set (keys d))"
  using AList.dom_update [of k v d] by (simp add: keys_def)

lemma keys_delete: "set (keys (AList.delete k d)) = set (keys d) - {k}"
  by (simp add: keys_def AList.delete_keys)

lemma map_of_update: "map_of (AList.update k v d) = (map_of d)(k \<mapsto> v)"
  by (rule AList.update_conv')

lemma map_of_delete: "map_of (AList.delete k d) = (map_of d)(k := None)"
  by (rule AList.delete_conv')

lemma in_keys_iff: "k \<in> set (keys d) \<longleftrightarrow> map_of d k \<noteq> None"
  by (simp add: keys_def map_of_eq_None_iff)

lemma in_keys_Some: "map_of d k = Some x \<Longrightarrow> k \<in> set (keys d)"
  by (simp add: in_keys_iff)

lemma not_in_keys_None: "map_of d k = None \<Longrightarrow> k \<notin> set (keys d)"
  by (simp add: in_keys_iff)

text \<open>Once the target is there and a pair to it is still to come, the loop raises.\<close>

lemma nodes_pending_pair_raises:
  assumes "distinct (keys cm)" "(k2, v) \<in> set cm" "v \<notin> set (keys cm)"
    "k2 \<in> set (keys b)" "v \<in> set (keys b)"
    "\<not> (k2 = ID_COLUMN_NAME cfg \<and> v = LABEL_COLUMN_NAME cfg)"
  shows "map_nodes_columns cfg cm b = Inl nodes_dup"
  using assms
proof (induction cm arbitrary: b)
  case Nil
  then show ?case by simp
next
  case (Cons p cm)
  obtain k w where p: "p = (k, w)" by (cases p)
  from Cons.prems p have dist: "distinct (keys cm)" and k_new: "k \<notin> set (keys cm)"
    and v_k: "v \<noteq> k" and v_cm: "v \<notin> set (keys cm)"
    by (auto simp: keys_def)
  show ?case
  proof (cases "map_of b k")
    case None
    then have "k \<noteq> k2" using Cons.prems(4) by (auto simp: in_keys_iff)
    with Cons.prems p have "(k2, v) \<in> set cm" by auto
    from Cons.IH [OF dist this v_cm Cons.prems(4,5,6)] None p show ?thesis by simp
  next
    case (Some data)
    show ?thesis
    proof (cases "k = k2")
      case True
      with Cons.prems p k_new have "w = v"
        by (auto simp: keys_def rev_image_eqI)
      have "v \<in> set (keys (AList.delete k b))"
        using Cons.prems(5) v_k by (simp add: keys_delete)
      with Some p True \<open>w = v\<close> Cons.prems(6) show ?thesis
        by auto
    next
      case False
      with Cons.prems p have k2_cm: "(k2, v) \<in> set cm" by auto
      show ?thesis
      proof (cases "k = ID_COLUMN_NAME cfg \<and> w = LABEL_COLUMN_NAME cfg")
        case True
        have "k2 \<in> set (keys (AList.update w data b))" "v \<in> set (keys (AList.update w data b))"
          using Cons.prems(4,5) by (simp_all add: keys_update)
        from Cons.IH [OF dist k2_cm v_cm this Cons.prems(6)] Some p True show ?thesis
          by simp
      next
        case notcopy: False
        show ?thesis
        proof (cases "w \<in> set (keys (AList.delete k b))")
          case True
          with Some p notcopy show ?thesis by auto
        next
          case False
          have "k2 \<in> set (keys (AList.update w data (AList.delete k b)))"
            "v \<in> set (keys (AList.update w data (AList.delete k b)))"
            using Cons.prems(4,5) \<open>k \<noteq> k2\<close> v_k by (simp_all add: keys_update keys_delete)
          from Cons.IH [OF dist k2_cm v_cm this Cons.prems(6)] Some p notcopy False
          show ?thesis by auto
        qed
      qed
    qed
  qed
qed


lemma nodes_two_sources_raise:
  assumes "distinct (keys cm)" "(k1, v) \<in> set cm" "(k2, v) \<in> set cm" "k1 \<noteq> k2"
    "v \<notin> set (keys cm)" "k1 \<in> set (keys b)" "k2 \<in> set (keys b)"
    "\<not> (v = LABEL_COLUMN_NAME cfg \<and> (k1 = ID_COLUMN_NAME cfg \<or> k2 = ID_COLUMN_NAME cfg))"
  shows "map_nodes_columns cfg cm b = Inl nodes_dup"
  using assms
proof (induction cm arbitrary: b)
  case Nil
  then show ?case by simp
next
  case (Cons p cm)
  obtain k w where p: "p = (k, w)" by (cases p)
  from Cons.prems p have dist: "distinct (keys cm)" and k_new: "k \<notin> set (keys cm)"
    and v_k: "v \<noteq> k" and v_cm: "v \<notin> set (keys cm)"
    by (auto simp: keys_def)
  have in_rest: "(k', v) \<in> set cm" if "(k', v) \<in> set (p # cm)" "k' \<noteq> k" for k'
    using that p by auto
  have head_target: "w = v" if "(k, v) \<in> set (p # cm)"
    using that p k_new by (auto simp: keys_def rev_image_eqI)
  show ?case
  proof (cases "map_of b k")
    case None
    then have "k \<noteq> k1" "k \<noteq> k2"
      using Cons.prems(6,7) by (auto simp: in_keys_iff)
    then have "(k1, v) \<in> set cm" "(k2, v) \<in> set cm"
      using in_rest Cons.prems(2,3) by auto
    from Cons.IH [OF dist this Cons.prems(4) v_cm Cons.prems(6,7,8)] None p
    show ?thesis by simp
  next
    case (Some data)
    consider (first) "k = k1" | (second) "k = k2" | (other) "k \<noteq> k1" "k \<noteq> k2"
      by blast
    then show ?thesis
    proof cases
      case first
      then have w: "w = v" and k2: "(k2, v) \<in> set cm"
        using head_target in_rest Cons.prems(2,3,4) by auto
      have notcopy: "\<not> (k = ID_COLUMN_NAME cfg \<and> w = LABEL_COLUMN_NAME cfg)"
        and later: "\<not> (k2 = ID_COLUMN_NAME cfg \<and> v = LABEL_COLUMN_NAME cfg)"
        using Cons.prems(8) first w by auto
      show ?thesis
      proof (cases "v \<in> set (keys (AList.delete k b))")
        case True
        with Some p w notcopy show ?thesis by auto
      next
        case False
        have "k2 \<in> set (keys (AList.update v data (AList.delete k b)))"
          "v \<in> set (keys (AList.update v data (AList.delete k b)))"
          using Cons.prems(4,7) first by (simp_all add: keys_update keys_delete)
        from nodes_pending_pair_raises [OF dist k2 v_cm this later] Some p w notcopy False
        show ?thesis by auto
      qed
    next
      case second
      then have w: "w = v" and k1: "(k1, v) \<in> set cm"
        using head_target in_rest Cons.prems(2,3,4) by auto
      have notcopy: "\<not> (k = ID_COLUMN_NAME cfg \<and> w = LABEL_COLUMN_NAME cfg)"
        and later: "\<not> (k1 = ID_COLUMN_NAME cfg \<and> v = LABEL_COLUMN_NAME cfg)"
        using Cons.prems(8) second w by auto
      show ?thesis
      proof (cases "v \<in> set (keys (AList.delete k b))")
        case True
        with Some p w notcopy show ?thesis by auto
      next
        case False
        have "k1 \<in> set (keys (AList.update v data (AList.delete k b)))"
          "v \<in> set (keys (AList.update v data (AList.delete k b)))"
          using Cons.prems(4,6) second by (simp_all add: keys_update keys_delete)
        from nodes_pending_pair_raises [OF dist k1 v_cm this later] Some p w notcopy False
        show ?thesis by auto
      qed
    next
      case other
      then have rest: "(k1, v) \<in> set cm" "(k2, v) \<in> set cm"
        using in_rest Cons.prems(2,3) by auto
      show ?thesis
      proof (cases "k = ID_COLUMN_NAME cfg \<and> w = LABEL_COLUMN_NAME cfg")
        case True
        have "k1 \<in> set (keys (AList.update w data b))" "k2 \<in> set (keys (AList.update w data b))"
          using Cons.prems(6,7) by (simp_all add: keys_update)
        from Cons.IH [OF dist rest Cons.prems(4) v_cm this Cons.prems(8)] Some p True
        show ?thesis by simp
      next
        case notcopy: False
        show ?thesis
        proof (cases "w \<in> set (keys (AList.delete k b))")
          case True
          with Some p notcopy show ?thesis by auto
        next
          case False
          have "k1 \<in> set (keys (AList.update w data (AList.delete k b)))"
            "k2 \<in> set (keys (AList.update w data (AList.delete k b)))"
            using Cons.prems(6,7) other by (simp_all add: keys_update keys_delete)
          from Cons.IH [OF dist rest Cons.prems(4) v_cm this Cons.prems(8)] Some p notcopy False
          show ?thesis by auto
        qed
      qed
    qed
  qed
qed

lemma edges_pending_pair_raises:
  assumes "distinct (keys cm)" "(k2, v) \<in> set cm" "v \<notin> set (keys cm)"
    "k2 \<in> set (keys b)" "v \<in> set (keys b)"
  shows "map_edges_columns cm b = Inl edges_dup"
  using assms
proof (induction cm arbitrary: b)
  case Nil
  then show ?case by simp
next
  case (Cons p cm)
  obtain k w where p: "p = (k, w)" by (cases p)
  from Cons.prems p have dist: "distinct (keys cm)" and k_new: "k \<notin> set (keys cm)"
    and v_k: "v \<noteq> k" and v_cm: "v \<notin> set (keys cm)"
    by (auto simp: keys_def)
  show ?case
  proof (cases "map_of b k")
    case None
    then have "k \<noteq> k2" using Cons.prems(4) by (auto simp: in_keys_iff)
    with Cons.prems p have "(k2, v) \<in> set cm" by auto
    from Cons.IH [OF dist this v_cm Cons.prems(4,5)] None p show ?thesis by simp
  next
    case (Some data)
    show ?thesis
    proof (cases "k = k2")
      case True
      with Cons.prems p k_new have "w = v"
        by (auto simp: keys_def rev_image_eqI)
      have "v \<in> set (keys (AList.delete k b))"
        using Cons.prems(5) v_k by (simp add: keys_delete)
      with Some p True \<open>w = v\<close> show ?thesis by auto
    next
      case False
      with Cons.prems p have k2_cm: "(k2, v) \<in> set cm" by auto
      show ?thesis
      proof (cases "w \<in> set (keys (AList.delete k b))")
        case True
        with Some p show ?thesis by auto
      next
        case False
        have "k2 \<in> set (keys (AList.update w data (AList.delete k b)))"
          "v \<in> set (keys (AList.update w data (AList.delete k b)))"
          using Cons.prems(4,5) \<open>k \<noteq> k2\<close> v_k by (simp_all add: keys_update keys_delete)
        from Cons.IH [OF dist k2_cm v_cm this] Some p False
        show ?thesis by auto
      qed
    qed
  qed
qed

lemma edges_two_sources_raise:
  assumes "distinct (keys cm)" "(k1, v) \<in> set cm" "(k2, v) \<in> set cm" "k1 \<noteq> k2"
    "v \<notin> set (keys cm)" "k1 \<in> set (keys b)" "k2 \<in> set (keys b)"
  shows "map_edges_columns cm b = Inl edges_dup"
  using assms
proof (induction cm arbitrary: b)
  case Nil
  then show ?case by simp
next
  case (Cons p cm)
  obtain k w where p: "p = (k, w)" by (cases p)
  from Cons.prems p have dist: "distinct (keys cm)" and k_new: "k \<notin> set (keys cm)"
    and v_k: "v \<noteq> k" and v_cm: "v \<notin> set (keys cm)"
    by (auto simp: keys_def)
  have in_rest: "(k', v) \<in> set cm" if "(k', v) \<in> set (p # cm)" "k' \<noteq> k" for k'
    using that p by auto
  have head_target: "w = v" if "(k, v) \<in> set (p # cm)"
    using that p k_new by (auto simp: keys_def rev_image_eqI)
  show ?case
  proof (cases "map_of b k")
    case None
    then have "k \<noteq> k1" "k \<noteq> k2"
      using Cons.prems(6,7) by (auto simp: in_keys_iff)
    then have "(k1, v) \<in> set cm" "(k2, v) \<in> set cm"
      using in_rest Cons.prems(2,3) by auto
    from Cons.IH [OF dist this Cons.prems(4) v_cm Cons.prems(6,7)] None p
    show ?thesis by simp
  next
    case (Some data)
    consider (first) "k = k1" | (second) "k = k2" | (other) "k \<noteq> k1" "k \<noteq> k2"
      by blast
    then show ?thesis
    proof cases
      case first
      then have w: "w = v" and k2: "(k2, v) \<in> set cm"
        using head_target in_rest Cons.prems(2,3,4) by auto
      show ?thesis
      proof (cases "v \<in> set (keys (AList.delete k b))")
        case True
        with Some p w show ?thesis by auto
      next
        case False
        have "k2 \<in> set (keys (AList.update v data (AList.delete k b)))"
          "v \<in> set (keys (AList.update v data (AList.delete k b)))"
          using Cons.prems(4,7) first by (simp_all add: keys_update keys_delete)
        from edges_pending_pair_raises [OF dist k2 v_cm this] Some p w False
        show ?thesis by auto
      qed
    next
      case second
      then have w: "w = v" and k1: "(k1, v) \<in> set cm"
        using head_target in_rest Cons.prems(2,3,4) by auto
      show ?thesis
      proof (cases "v \<in> set (keys (AList.delete k b))")
        case True
        with Some p w show ?thesis by auto
      next
        case False
        have "k1 \<in> set (keys (AList.update v data (AList.delete k b)))"
          "v \<in> set (keys (AList.update v data (AList.delete k b)))"
          using Cons.prems(4,6) second by (simp_all add: keys_update keys_delete)
        from edges_pending_pair_raises [OF dist k1 v_cm this] Some p w False
        show ?thesis by auto
      qed
    next
      case other
      then have rest: "(k1, v) \<in> set cm" "(k2, v) \<in> set cm"
        using in_rest Cons.prems(2,3) by auto
      show ?thesis
      proof (cases "w \<in> set (keys (AList.delete k b))")
        case True
        with Some p show ?thesis by auto
      next
        case False
        have "k1 \<in> set (keys (AList.update w data (AList.delete k b)))"
          "k2 \<in> set (keys (AList.update w data (AList.delete k b)))"
          using Cons.prems(6,7) other by (simp_all add: keys_update keys_delete)
        from Cons.IH [OF dist rest Cons.prems(4) v_cm this] Some p False
        show ?thesis by auto
      qed
    qed
  qed
qed


lemma for_batches_append:
  "for_batches body (bs1 @ bs2) st =
     (case for_batches body bs1 st of
        Inl failure \<Rightarrow> Inl failure
      | Inr st1 \<Rightarrow> for_batches body bs2 st1)"
  by (induction bs1 arbitrary: st) (auto split: sum.splits)

lemma for_batches_stops:
  assumes "for_batches body earlier st = Inr st1" "body st1 b = Inl failure"
  shows "for_batches body (earlier @ b # later) st = Inl failure"
  using assms by (simp add: for_batches_append)

lemma schema_column_map_Some: "schema_column_map (Some cm) = cm"
  by (simp add: schema_column_map_def)

lemma insert_edges_batch_mapping_fails:
  "map_edges_columns (schema_column_map schema) b = Inl e \<Longrightarrow>
     insert_edges_batch ops schema (network_data, added) b = Inl (e, network_data)"
  by (simp add: insert_edges_batch_def)

lemma insert_nodes_batch_mapping_fails:
  "map_nodes_columns cfg (schema_column_map schema) b = Inl e \<Longrightarrow>
     insert_nodes_batch cfg ops schema (network_data, added) b = Inl (e, network_data)"
  by (simp add: insert_nodes_batch_def)

text \<open>
  Claim C3 (amended). Suppose the column mapping of a batch sends two distinct source
  columns, both present in the batch, to the same target column, and that target is not
  itself a source column of the mapping. Then an edges batch ends with the
  duplicate-column exception and the store is the one the batch started with: no record
  of the batch reaches it, and a run over several batches stops there with the store
  left by the earlier batches. The same holds for a nodes batch when neither of the two
  pairs is the pair identifier \<open>\<rightarrow>\<close> label.
\<close>

theorem duplicate_target_aborts_batch:
  assumes "distinct (keys cm)" and "(k1, v) \<in> set cm" and "(k2, v) \<in> set cm"
    and "k1 \<noteq> k2" and "v \<notin> set (keys cm)"
    and "k1 \<in> set (keys batch_dict)" and "k2 \<in> set (keys batch_dict)"
  shows
    "insert_edges_batch ops (Some cm) (network_data, added) batch_dict
       = Inl (edges_dup, network_data) \<and>
     (for_batches (insert_edges_batch ops (Some cm)) earlier st = Inr (network_data, added) \<longrightarrow>
        for_batches (insert_edges_batch ops (Some cm)) (earlier @ batch_dict # later) st
          = Inl (edges_dup, network_data)) \<and>
     (\<not> (v = LABEL_COLUMN_NAME cfg \<and> (k1 = ID_COLUMN_NAME cfg \<or> k2 = ID_COLUMN_NAME cfg)) \<longrightarrow>
        insert_nodes_batch cfg ops (Some cm) (network_data, added) batch_dict
          = Inl (nodes_dup, network_data) \<and>
        (for_batches (insert_nodes_batch cfg ops (Some cm)) earlier st
            = Inr (network_data, added) \<longrightarrow>
         for_batches (insert_nodes_batch cfg ops (Some cm)) (earlier @ batch_dict # later) st
            = Inl (nodes_dup, network_data)))"
proof -
  have "map_edges_columns (schema_column_map (Some cm)) batch_dict = Inl edges_dup"
    unfolding schema_column_map_Some by (rule edges_two_sources_raise [OF assms])
  then have edges: "insert_edges_batch ops (Some cm) (network_data, added) batch_dict
       = Inl (edges_dup, network_data)"
    by (rule insert_edges_batch_mapping_fails)
  have nodes: "insert_nodes_batch cfg ops (Some cm) (network_data, added) batch_dict
       = Inl (nodes_dup, network_data)"
    if "\<not> (v = LABEL_COLUMN_NAME cfg \<and> (k1 = ID_COLUMN_NAME cfg \<or> k2 = ID_COLUMN_NAME cfg))"
  proof -
    have "map_nodes_columns cfg (schema_column_map (Some cm)) batch_dict = Inl nodes_dup"
      unfolding schema_column_map_Some by (rule nodes_two_sources_raise [OF assms that])
    then show ?thesis by (rule insert_nodes_batch_mapping_fails)
  qed
  show ?thesis
    using edges nodes for_batches_stops [where later = later] by metis
qed

theorem duplicate_target_aborts_batch_witness:
  "insert_edges_batch (store_ops example_defaults) (Some [(''a'', ''x''), (''b'', ''x'')])
       (empty_store, {}) [(''a'', [PyInt 1]), (''b'', [PyInt 2])]
     = Inl (edges_dup, empty_store) \<and>
   insert_nodes_batch example_defaults (store_ops example_defaults)
       (Some [(''a'', ''x''), (''b'', ''x'')])
       (empty_store, {}) [(''a'', [PyInt 1]), (''b'', [PyInt 2])]
     = Inl (nodes_dup, empty_store) \<and>
   for_batches (insert_edges_batch (store_ops example_defaults)
         (Some [(''a'', ''x''), (''b'', ''x'')]))
       ([] @ [(''a'', [PyInt 1]), (''b'', [PyInt 2])] # []) (empty_store, {})
     = Inl (edges_dup, empty_store)"
proof -
  let ?cm = "[(''a'', ''x''), (''b'', ''x'')]"
  let ?b = "[(''a'', [PyInt 1]), (''b'', [PyInt 2])]"
  have h: "distinct (keys ?cm)" "(''a'', ''x'') \<in> set ?cm" "(''b'', ''x'') \<in> set ?cm"
    "''a'' \<noteq> ''b''" "''x'' \<notin> set (keys ?cm)"
    "''a'' \<in> set (keys ?b)" "''b'' \<in> set (keys ?b)"
    by (simp_all add: keys_def)
  have nc: "\<not> (''x'' = LABEL_COLUMN_NAME example_defaults \<and>
       (''a'' = ID_COLUMN_NAME example_defaults \<or> ''b'' = ID_COLUMN_NAME example_defaults))"
    by (simp add: example_defaults_def)
  have start: "for_batches (insert_edges_batch (store_ops example_defaults) (Some ?cm)) []
      (empty_store, {}) = Inr (empty_store, {})"
    by simp
  note main = duplicate_target_aborts_batch [OF h, of "store_ops example_defaults" empty_store
      "{}" "[]" "(empty_store, {})" "[]" example_defaults]
  from main nc start show ?thesis by blast
qed

text \<open>
  The claim without the condition on the target fails. The pairs are applied one after
  the other: \<^verbatim>\<open>a\<close> and \<^verbatim>\<open>b\<close> are both sent to \<^verbatim>\<open>source\<close>, but the column
  \<^verbatim>\<open>source\<close> made from \<^verbatim>\<open>a\<close> is renamed to \<^verbatim>\<open>target\<close> before \<^verbatim>\<open>b\<close> is
  handled. No exception is raised and the record is inserted.
\<close>

theorem duplicate_target_counterexample:
  "map_of [(''a'', ''source''), (''source'', ''target''), (''b'', ''source'')] ''a''
     = Some ''source'' \<and>
   map_of [(''a'', ''source''), (''source'', ''target''), (''b'', ''source'')] ''b''
     = Some ''source'' \<and>
   ''a'' \<noteq> ''b'' \<and>
   ''a'' \<in> set (keys [(''a'', [PyStr ''n1'']), (''b'', [PyStr ''n2''])]) \<and>
   ''b'' \<in> set (keys [(''a'', [PyStr ''n1'']), (''b'', [PyStr ''n2''])]) \<and>
   map_edges_columns [(''a'', ''source''), (''source'', ''target''), (''b'', ''source'')]
       [(''a'', [PyStr ''n1'']), (''b'', [PyStr ''n2''])]
     = Inr [(''target'', [PyStr ''n1'']), (''source'', [PyStr ''n2''])] \<and>
   insert_edges_batch (store_ops example_defaults)
       (Some [(''a'', ''source''), (''source'', ''target''), (''b'', ''source'')])
       (empty_store, {}) [(''a'', [PyStr ''n1'']), (''b'', [PyStr ''n2''])]
     = Inr (\<lparr>node_rows = [[(''id'', PyStr ''n2'')], [(''id'', PyStr ''n1'')]],
             edge_rows = [[(''target'', PyStr ''n1''), (''source'', PyStr ''n2'')]]\<rparr>,
            {PyStr ''n2'', PyStr ''n1''})"
  by (simp add: insert_edges_batch_def schema_column_map_def keys_def to_records_def
      dict_values_def zip_star.simps store_ops_def store_insert_edges_def edge_endpoints_def
      example_defaults_def empty_store_def List.map_filter_def)


section \<open>The identifier/label pair of the nodes mapping\<close>


lemma keys_Nil: "keys [] = []"
  by (simp add: keys_def)

lemma keys_Cons: "keys ((k, v) # d) = k # keys d"
  by (simp add: keys_def)








lemma dict_values_Cons: "dict_values ((k, v) # d) = v # dict_values d"
  by (simp add: dict_values_def)

lemma pair_in_dict: "(k, v) \<in> set d \<Longrightarrow> k \<in> set (keys d) \<and> v \<in> set (dict_values d)"
  by (force simp: keys_def dict_values_def)

text \<open>A column that no pair names as its source and that no pair can write stays.\<close>

lemma nodes_frame:
  assumes "distinct (keys cm)" "set (dict_values cm) \<inter> set (keys cm) = {}"
    "map_nodes_columns cfg cm b = Inr b'" "c \<in> set (keys b)" "c \<notin> set (keys cm)"
    "\<not> (c = LABEL_COLUMN_NAME cfg \<and> (ID_COLUMN_NAME cfg, LABEL_COLUMN_NAME cfg) \<in> set cm
         \<and> ID_COLUMN_NAME cfg \<in> set (keys b))"
  shows "map_of b' c = map_of b c"
  using assms
proof (induction cm arbitrary: b)
  case Nil
  then show ?case by simp
next
  case (Cons p cm)
  obtain k w where p: "p = (k, w)" by (cases p)
  from Cons.prems p have dist: "distinct (keys cm)" and k_new: "k \<notin> set (keys cm)"
    and disj: "set (dict_values cm) \<inter> set (keys cm) = {}"
    and w_cm: "w \<notin> set (keys cm)" and w_k: "w \<noteq> k"
    and c_k: "c \<noteq> k" and c_cm: "c \<notin> set (keys cm)"
    by (auto simp: keys_Cons dict_values_Cons)
  have id_rest: "ID_COLUMN_NAME cfg \<noteq> w"
    if "(ID_COLUMN_NAME cfg, LABEL_COLUMN_NAME cfg) \<in> set cm"
    using that w_cm pair_in_dict by fastforce
  show ?case
  proof (cases "map_of b k")
    case None
    with Cons.prems(3) p have run: "map_nodes_columns cfg cm b = Inr b'" by simp
    have "\<not> (c = LABEL_COLUMN_NAME cfg \<and> (ID_COLUMN_NAME cfg, LABEL_COLUMN_NAME cfg) \<in> set cm
         \<and> ID_COLUMN_NAME cfg \<in> set (keys b))"
      using Cons.prems(6) by auto
    from Cons.IH [OF dist disj run Cons.prems(4) c_cm this] show ?thesis .
  next
    case (Some data)
    show ?thesis
    proof (cases "k = ID_COLUMN_NAME cfg \<and> w = LABEL_COLUMN_NAME cfg")
      case True
      let ?b1 = "AList.update w data b"
      from Cons.prems(3) p Some True have run: "map_nodes_columns cfg cm ?b1 = Inr b'"
        by simp
      have "ID_COLUMN_NAME cfg \<in> set (keys b)"
        using Some True by (auto intro: in_keys_Some)
      with Cons.prems(6) True p have c_w: "c \<noteq> w" by auto
      have c_in: "c \<in> set (keys ?b1)" using Cons.prems(4) by (simp add: keys_update)
      have "(ID_COLUMN_NAME cfg, LABEL_COLUMN_NAME cfg) \<notin> set cm"
        using True k_new pair_in_dict by fastforce
      then have "\<not> (c = LABEL_COLUMN_NAME cfg \<and>
          (ID_COLUMN_NAME cfg, LABEL_COLUMN_NAME cfg) \<in> set cm
           \<and> ID_COLUMN_NAME cfg \<in> set (keys ?b1))"
        by simp
      from Cons.IH [OF dist disj run c_in c_cm this] c_w show ?thesis
        by (simp add: map_of_update)
    next
      case notcopy: False
      let ?popped = "AList.delete k b"
      let ?b1 = "AList.update w data ?popped"
      from Cons.prems(3) p Some notcopy have w_free: "w \<notin> set (keys ?popped)"
        and run: "map_nodes_columns cfg cm ?b1 = Inr b'"
        by (auto simp: Let_def split: if_splits)
      have "c \<in> set (keys ?popped)" using Cons.prems(4) c_k by (simp add: keys_delete)
      with w_free have c_w: "c \<noteq> w" by auto
      have c_in: "c \<in> set (keys ?b1)"
        using Cons.prems(4) c_k by (simp add: keys_update keys_delete)
      have "\<not> (c = LABEL_COLUMN_NAME cfg \<and>
          (ID_COLUMN_NAME cfg, LABEL_COLUMN_NAME cfg) \<in> set cm
           \<and> ID_COLUMN_NAME cfg \<in> set (keys ?b1))"
        using Cons.prems(6) id_rest by (auto simp: keys_update keys_delete)
      from Cons.IH [OF dist disj run c_in c_cm this] c_w c_k show ?thesis
        by (simp add: map_of_update map_of_delete)
    qed
  qed
qed

text \<open>A column that is absent and that no pair writes stays absent.\<close>

lemma nodes_absent:
  assumes "map_nodes_columns cfg cm b = Inr b'" "c \<notin> set (keys b)"
    "c \<notin> set (dict_values cm)"
  shows "c \<notin> set (keys b')"
  using assms
proof (induction cm arbitrary: b)
  case Nil
  then show ?case by simp
next
  case (Cons p cm)
  obtain k w where p: "p = (k, w)" by (cases p)
  from Cons.prems p have c_w: "c \<noteq> w" and c_cm: "c \<notin> set (dict_values cm)"
    by (auto simp: dict_values_Cons)
  show ?case
  proof (cases "map_of b k")
    case None
    with Cons.prems p Cons.IH [OF _ Cons.prems(2) c_cm] show ?thesis by simp
  next
    case (Some data)
    show ?thesis
    proof (cases "k = ID_COLUMN_NAME cfg \<and> w = LABEL_COLUMN_NAME cfg")
      case True
      with Cons.prems(1) p Some
      have run: "map_nodes_columns cfg cm (AList.update w data b) = Inr b'" by simp
      have "c \<notin> set (keys (AList.update w data b))"
        using Cons.prems(2) c_w by (simp add: keys_update)
      from Cons.IH [OF run this c_cm] show ?thesis .
    next
      case False
      with Cons.prems(1) p Some
      have run: "map_nodes_columns cfg cm (AList.update w data (AList.delete k b)) = Inr b'"
        by (auto simp: Let_def split: if_splits)
      have "c \<notin> set (keys (AList.update w data (AList.delete k b)))"
        using Cons.prems(2) c_w by (simp add: keys_update keys_delete)
      from Cons.IH [OF run this c_cm] show ?thesis .
    qed
  qed
qed


lemma nodes_pairs_applied:
  assumes "distinct (keys cm)" "set (dict_values cm) \<inter> set (keys cm) = {}"
    "\<forall>k. (k, LABEL_COLUMN_NAME cfg) \<in> set cm \<longrightarrow> k = ID_COLUMN_NAME cfg"
    "map_nodes_columns cfg cm b = Inr b'" "(k, v) \<in> set cm" "k \<in> set (keys b)"
  shows "if k = ID_COLUMN_NAME cfg \<and> v = LABEL_COLUMN_NAME cfg
         then map_of b' k = map_of b k \<and> map_of b' v = map_of b k
         else k \<notin> set (keys b') \<and> map_of b' v = map_of b k"
  using assms
proof (induction cm arbitrary: b)
  case Nil
  then show ?case by simp
next
  case (Cons p cm)
  obtain k0 w0 where p: "p = (k0, w0)" by (cases p)
  from Cons.prems p have dist: "distinct (keys cm)" and k0_new: "k0 \<notin> set (keys cm)"
    and disj: "set (dict_values cm) \<inter> set (keys cm) = {}"
    and w0_cm: "w0 \<notin> set (keys cm)" and w0_k0: "w0 \<noteq> k0"
    and k0_vals: "k0 \<notin> set (dict_values cm)"
    and only: "\<forall>k. (k, LABEL_COLUMN_NAME cfg) \<in> set cm \<longrightarrow> k = ID_COLUMN_NAME cfg"
    by (auto simp: keys_Cons dict_values_Cons)
  show ?case
  proof (cases "(k, v) = (k0, w0)")
    case head: True
    then obtain data where Some: "map_of b k0 = Some data"
      using Cons.prems(6) by (auto simp: in_keys_iff)
    show ?thesis
    proof (cases "k0 = ID_COLUMN_NAME cfg \<and> w0 = LABEL_COLUMN_NAME cfg")
      case True
      let ?b1 = "AList.update w0 data b"
      from Cons.prems(4) p Some True have run: "map_nodes_columns cfg cm ?b1 = Inr b'"
        by simp
      have no_copy: "(ID_COLUMN_NAME cfg, LABEL_COLUMN_NAME cfg) \<notin> set cm"
        using True k0_new pair_in_dict by fastforce
      have "map_of b' k0 = map_of ?b1 k0"
        by (rule nodes_frame [OF dist disj run _ k0_new])
           (use Cons.prems(6) head w0_k0 True no_copy in \<open>auto simp: keys_update\<close>)
      moreover have "map_of b' w0 = map_of ?b1 w0"
        by (rule nodes_frame [OF dist disj run _ w0_cm])
           (use no_copy in \<open>auto simp: keys_update\<close>)
      ultimately show ?thesis
        using head True Some w0_k0 by (simp add: map_of_update)
    next
      case notcopy: False
      let ?b1 = "AList.update w0 data (AList.delete k0 b)"
      from Cons.prems(4) p Some notcopy have run: "map_nodes_columns cfg cm ?b1 = Inr b'"
        by (auto simp: Let_def split: if_splits)
      have "k0 \<notin> set (keys ?b1)"
        using w0_k0 by (simp add: keys_update keys_delete)
      from nodes_absent [OF run this k0_vals] have gone: "k0 \<notin> set (keys b')" .
      have w0_label: "w0 \<noteq> LABEL_COLUMN_NAME cfg"
        using Cons.prems(3) p notcopy by auto
      have "map_of b' w0 = map_of ?b1 w0"
        by (rule nodes_frame [OF dist disj run _ w0_cm])
           (use w0_label in \<open>auto simp: keys_update\<close>)
      with gone head notcopy Some show ?thesis
        by (auto simp: map_of_update)
    qed
  next
    case rest: False
    with Cons.prems(5) p have in_cm: "(k, v) \<in> set cm" by auto
    then have k_cm: "k \<in> set (keys cm)" using pair_in_dict by fastforce
    with k0_new w0_cm have k_k0: "k \<noteq> k0" and k_w0: "k \<noteq> w0" by auto
    show ?thesis
    proof (cases "map_of b k0")
      case None
      with Cons.prems(4) p have run: "map_nodes_columns cfg cm b = Inr b'" by simp
      from Cons.IH [OF dist disj only run in_cm Cons.prems(6)] show ?thesis .
    next
      case (Some data)
      show ?thesis
      proof (cases "k0 = ID_COLUMN_NAME cfg \<and> w0 = LABEL_COLUMN_NAME cfg")
        case True
        let ?b1 = "AList.update w0 data b"
        from Cons.prems(4) p Some True have run: "map_nodes_columns cfg cm ?b1 = Inr b'"
          by simp
        have "k \<in> set (keys ?b1)" using Cons.prems(6) by (simp add: keys_update)
        from Cons.IH [OF dist disj only run in_cm this] k_w0 show ?thesis
          by (auto simp: map_of_update split: if_splits)
      next
        case False
        let ?b1 = "AList.update w0 data (AList.delete k0 b)"
        from Cons.prems(4) p Some False have run: "map_nodes_columns cfg cm ?b1 = Inr b'"
          by (auto simp: Let_def split: if_splits)
        have "k \<in> set (keys ?b1)"
          using Cons.prems(6) k_k0 by (simp add: keys_update keys_delete)
        from Cons.IH [OF dist disj only run in_cm this] k_w0 k_k0 show ?thesis
          by (auto simp: map_of_update map_of_delete split: if_splits)
      qed
    qed
  qed
qed

text \<open>
  Claim C2 (amended). The nodes mapping holds the pair identifier \<open>\<rightarrow>\<close> label and the
  batch has the identifier column; no target column of the mapping is also one of its
  source columns, and no other pair has the label column as target. If the mapping of
  the batch raises no exception, the identifier column is still there with its cells,
  the label column holds the same cells (a copy), and every other pair whose source
  column is in the batch is a rename: the source column is gone and its cells stand
  under the target name.
\<close>

theorem label_copy_and_renames:
  assumes "distinct (keys cm)"
    and "set (dict_values cm) \<inter> set (keys cm) = {}"
    and "\<forall>k. (k, LABEL_COLUMN_NAME cfg) \<in> set cm \<longrightarrow> k = ID_COLUMN_NAME cfg"
    and "(ID_COLUMN_NAME cfg, LABEL_COLUMN_NAME cfg) \<in> set cm"
    and "map_of batch_dict (ID_COLUMN_NAME cfg) = Some ids"
    and "map_nodes_columns cfg cm batch_dict = Inr mapped"
  shows
    "map_of mapped (ID_COLUMN_NAME cfg) = Some ids \<and>
     map_of mapped (LABEL_COLUMN_NAME cfg) = Some ids \<and>
     (\<forall>k v. (k, v) \<in> set cm \<and> (k, v) \<noteq> (ID_COLUMN_NAME cfg, LABEL_COLUMN_NAME cfg) \<and>
            k \<in> set (keys batch_dict) \<longrightarrow>
        k \<notin> set (keys mapped) \<and> map_of mapped v = map_of batch_dict k)"
proof (intro conjI allI impI)
  have id_in: "ID_COLUMN_NAME cfg \<in> set (keys batch_dict)"
    using assms(5) by (rule in_keys_Some)
  from nodes_pairs_applied [OF assms(1,2,3,6,4) id_in] assms(5)
  show "map_of mapped (ID_COLUMN_NAME cfg) = Some ids"
    and "map_of mapped (LABEL_COLUMN_NAME cfg) = Some ids"
    by simp_all
next
  fix k v
  assume kv: "(k, v) \<in> set cm \<and> (k, v) \<noteq> (ID_COLUMN_NAME cfg, LABEL_COLUMN_NAME cfg) \<and>
            k \<in> set (keys batch_dict)"
  then have "(k, v) \<in> set cm" "k \<in> set (keys batch_dict)"
    and "\<not> (k = ID_COLUMN_NAME cfg \<and> v = LABEL_COLUMN_NAME cfg)"
    by auto
  with nodes_pairs_applied [OF assms(1,2,3,6) this(1,2)]
  show "k \<notin> set (keys mapped)" and "map_of mapped v = map_of batch_dict k"
    by simp_all
qed

theorem label_copy_and_renames_witness:
  "map_nodes_columns example_defaults [(''id'', ''label''), (''name'', ''title'')]
      [(''id'', [PyInt 1, PyInt 2]), (''name'', [PyStr ''a'', PyStr ''b''])]
     = Inr [(''id'', [PyInt 1, PyInt 2]), (''label'', [PyInt 1, PyInt 2]),
            (''title'', [PyStr ''a'', PyStr ''b''])] \<and>
   map_of [(''id'', [PyInt 1, PyInt 2]), (''label'', [PyInt 1, PyInt 2]),
           (''title'', [PyStr ''a'', PyStr ''b''])] ''label'' = Some [PyInt 1, PyInt 2] \<and>
   ''name'' \<notin> set (keys [(''id'', [PyInt 1, PyInt 2]), (''label'', [PyInt 1, PyInt 2]),
           (''title'', [PyStr ''a'', PyStr ''b''])])"
proof -
  let ?cm = "[(''id'', ''label''), (''name'', ''title'')]"
  let ?b = "[(''id'', [PyInt 1, PyInt 2]), (''name'', [PyStr ''a'', PyStr ''b''])]"
  let ?m = "[(''id'', [PyInt 1, PyInt 2]), (''label'', [PyInt 1, PyInt 2]),
            (''title'', [PyStr ''a'', PyStr ''b''])]"
  have names: "ID_COLUMN_NAME example_defaults = ''id''"
    "LABEL_COLUMN_NAME example_defaults = ''label''"
    by (simp_all add: example_defaults_def)
  have run: "map_nodes_columns example_defaults ?cm ?b = Inr ?m"
    by (simp add: names keys_def)
  have h: "distinct (keys ?cm)" "set (dict_values ?cm) \<inter> set (keys ?cm) = {}"
    "\<forall>k. (k, LABEL_COLUMN_NAME example_defaults) \<in> set ?cm
        \<longrightarrow> k = ID_COLUMN_NAME example_defaults"
    "(ID_COLUMN_NAME example_defaults, LABEL_COLUMN_NAME example_defaults) \<in> set ?cm"
    "map_of ?b (ID_COLUMN_NAME example_defaults) = Some [PyInt 1, PyInt 2]"
    by (simp_all add: keys_def dict_values_def names)
  note main = label_copy_and_renames [OF h run]
  have pair: "(''name'', ''title'') \<in> set ?cm \<and>
      (''name'', ''title'') \<noteq> (ID_COLUMN_NAME example_defaults, LABEL_COLUMN_NAME example_defaults) \<and>
      ''name'' \<in> set (keys ?b)"
    by (simp add: names keys_def)
  from main [THEN conjunct2, THEN conjunct1]
  have "map_of ?m ''label'' = Some [PyInt 1, PyInt 2]" by (simp only: names)
  moreover from main [THEN conjunct2, THEN conjunct2, rule_format, OF pair]
  have "''name'' \<notin> set (keys ?m)" by (rule conjunct1)
  ultimately show ?thesis using run by (intro conjI)
qed

text \<open>
  Without the condition on targets the claim fails: the pairs are applied one after the
  other, so a second pair with the label column as source renames the fresh copy away,
  and the mapped batch has no label column.
\<close>

theorem label_copy_counterexample:
  "map_of [(''id'', ''label''), (''label'', ''title'')] ''id'' = Some ''label'' \<and>
   map_of [(''id'', [PyInt 1, PyInt 2])] ''id'' = Some [PyInt 1, PyInt 2] \<and>
   map_nodes_columns example_defaults [(''id'', ''label''), (''label'', ''title'')]
      [(''id'', [PyInt 1, PyInt 2])]
     = Inr [(''id'', [PyInt 1, PyInt 2]), (''title'', [PyInt 1, PyInt 2])] \<and>
   map_of [(''id'', [PyInt 1, PyInt 2]), (''title'', [PyInt 1, PyInt 2])] ''label'' = None"
  by (simp add: example_defaults_def keys_def)


section \<open>The set of seen node identifiers\<close>


lemma zip_star_rect:
  "cols \<noteq> [] \<Longrightarrow> \<forall>c \<in> set cols. length c = n \<Longrightarrow>
     zip_star cols = map (\<lambda>i. map (\<lambda>c. c ! i) cols) [0..<n]"
proof (induction n arbitrary: cols)
  case 0
  then have "[] \<in> set cols" by (cases cols) auto
  then show ?case by (subst zip_star.simps) simp
next
  case (Suc n)
  then have no_empty: "[] \<notin> set cols" by auto
  have tl_len: "\<forall>c \<in> set (map tl cols). length c = n"
    using Suc.prems(2) by auto
  have "map tl cols \<noteq> []" using Suc.prems(1) by simp
  from Suc.IH [OF this tl_len]
  have rest: "zip_star (map tl cols) = map (\<lambda>i. map (\<lambda>c. c ! Suc i) cols) [0..<n]"
    using Suc.prems(2) by (auto simp: nth_tl)
  have heads: "map hd cols = map (\<lambda>c. c ! 0) cols"
  proof (rule map_cong [OF refl])
    fix c assume "c \<in> set cols"
    with no_empty have "c \<noteq> []" by auto
    then show "hd c = c ! 0" by (rule hd_conv_nth)
  qed
  have "zip_star cols = map hd cols # zip_star (map tl cols)"
    using Suc.prems(1) no_empty by (subst zip_star.simps) simp
  also have "\<dots> = map (\<lambda>i. map (\<lambda>c. c ! i) cols) (0 # map Suc [0..<n])"
    by (simp add: rest heads comp_def)
  also have "0 # map Suc [0..<n] = [0..<Suc n]"
    by (simp add: map_Suc_upt upt_conv_Cons del: upt_Suc)
  finally show ?case .
qed

lemma map_of_zip_cells:
  "map_of (zip (keys b) (map f (dict_values b))) k = map_option f (map_of b k)"
  by (induction b) (auto simp: keys_def dict_values_def)

lemma to_records_rect:
  assumes "b \<noteq> []" "\<forall>c \<in> set (dict_values b). length c = n"
  shows "to_records b = map (\<lambda>i. zip (keys b) (map (\<lambda>c. c ! i) (dict_values b))) [0..<n]"
proof -
  have "dict_values b \<noteq> []" using assms(1) by (simp add: dict_values_def)
  from zip_star_rect [OF this assms(2)] show ?thesis
    by (simp add: to_records_def)
qed

lemma column_of_records:
  assumes "map_of b k = Some col" "\<forall>c \<in> set (dict_values b). length c = n"
  shows "map (\<lambda>r. map_of r k) (to_records b) = map Some col"
proof -
  from assms(1) have ne: "b \<noteq> []" by auto
  have "col \<in> set (dict_values b)"
    using assms(1) by (auto simp: dict_values_def dest: map_of_SomeD intro: rev_image_eqI)
  with assms(2) have len: "length col = n" by auto
  have "map (\<lambda>r. map_of r k) (to_records b) = map (\<lambda>i. Some (col ! i)) [0..<n]"
    by (simp add: to_records_rect [OF ne assms(2)] map_of_zip_cells assms(1) comp_def)
  also have "\<dots> = map Some (map (nth col) [0..<length col])"
    by (simp add: len comp_def)
  also have "\<dots> = map Some col" by (simp only: map_nth)
  finally show ?thesis .
qed

lemma map_filter_Some: "map f xs = map Some ys \<Longrightarrow> List.map_filter f xs = ys"
proof (induction xs arbitrary: ys)
  case Nil
  then show ?case by simp
next
  case (Cons x xs)
  then obtain y ys' where "ys = y # ys'" "f x = Some y" "map f xs = map Some ys'"
    by (cases ys) auto
  with Cons.IH show ?case by simp
qed

lemma endpoints_of_records:
  assumes "map_of b (SOURCE_COLUMN_NAME cfg) = Some sources"
    "map_of b (TARGET_COLUMN_NAME cfg) = Some targets"
    "\<forall>c \<in> set (dict_values b). length c = n"
  shows "edge_endpoints cfg (to_records b) = sources @ targets"
  using column_of_records [OF assms(1,3)] column_of_records [OF assms(2,3)]
  by (simp add: edge_endpoints_def map_filter_Some)

lemma records_complete:
  assumes "map_of b (SOURCE_COLUMN_NAME cfg) = Some sources"
    "map_of b (TARGET_COLUMN_NAME cfg) = Some targets"
    "\<forall>c \<in> set (dict_values b). length c = n"
  shows "\<not> list_ex (\<lambda>r. map_of r (SOURCE_COLUMN_NAME cfg) = None \<or>
                      map_of r (TARGET_COLUMN_NAME cfg) = None) (to_records b)"
proof -
  have "map_of r k \<noteq> None"
    if "r \<in> set (to_records b)" "map_of b k = Some col" for r k col
  proof -
    from that(1) have "map_of r k \<in> set (map (\<lambda>r. map_of r k) (to_records b))" by simp
    then show ?thesis
      unfolding column_of_records [OF that(2) assms(3)] by auto
  qed
  with assms(1,2) show ?thesis by (auto simp: list_ex_iff)
qed

lemma store_insert_edges_adds_endpoints:
  assumes "map_of b (SOURCE_COLUMN_NAME cfg) = Some sources"
    "map_of b (TARGET_COLUMN_NAME cfg) = Some targets"
    "\<forall>c \<in> set (dict_values b). length c = n"
  shows "\<exists>s' ids. store_insert_edges cfg s (to_records b) added = Inr (s', ids) \<and>
           added \<union> ids = added \<union> set sources \<union> set targets \<and>
           edge_rows s' = edge_rows s @ to_records b"
  using records_complete [OF assms] endpoints_of_records [OF assms]
  by (auto simp: store_insert_edges_def Let_def)

lemma insert_edges_batch_Inr:
  assumes "insert_edges_batch ops schema (s, seen) b = Inr (s', seen')"
  shows "\<exists>mapped ids. map_edges_columns (schema_column_map schema) b = Inr mapped \<and>
           insert_edges ops s (to_records mapped) seen = Inr (s', ids) \<and> seen' = seen \<union> ids"
  using assms by (auto simp: insert_edges_batch_def split: sum.splits)

lemma insert_nodes_batch_Inr:
  assumes "insert_nodes_batch cfg ops schema (s, seen) b = Inr (s', seen')"
  shows "\<exists>mapped ids. map_nodes_columns cfg (schema_column_map schema) b = Inr mapped \<and>
           map_of mapped (ID_COLUMN_NAME cfg) = Some ids \<and>
           insert_nodes ops s (to_records mapped) = Inr s' \<and> seen' = seen \<union> set ids"
  using assms by (auto simp: insert_nodes_batch_def split: sum.splits option.splits)

lemma for_batches_grows:
  assumes step: "\<And>s seen b s' seen'. body (s, seen) b = Inr (s', seen') \<Longrightarrow> seen \<subseteq> seen'"
    and run: "for_batches body bs (s, seen) = Inr (s', seen')"
  shows "seen \<subseteq> seen'"
  using run
proof (induction bs arbitrary: s seen)
  case Nil
  then show ?case by simp
next
  case (Cons b bs)
  then obtain s1 seen1 where first: "body (s, seen) b = Inr (s1, seen1)"
    and rest: "for_batches body bs (s1, seen1) = Inr (s', seen')"
    by (auto split: sum.splits)
  from step [OF first] Cons.IH [OF rest] show ?case by simp
qed

lemma edges_loop_grows:
  "for_batches (insert_edges_batch ops schema) bs (s, seen) = Inr (s', seen') \<Longrightarrow> seen \<subseteq> seen'"
  by (erule for_batches_grows [rotated]) (auto dest: insert_edges_batch_Inr)

text \<open>The store of the specification takes a complete batch.\<close>

lemma complete_edges_batch:
  assumes "edges_batch_complete cfg es b"
  shows "\<exists>sources targets.
    map_edges_columns (schema_column_map es) b = Inr (mapped_edges_batch es b) \<and>
    map_of (mapped_edges_batch es b) (SOURCE_COLUMN_NAME cfg) = Some sources \<and>
    map_of (mapped_edges_batch es b) (TARGET_COLUMN_NAME cfg) = Some targets \<and>
    (\<forall>c \<in> set (dict_values (mapped_edges_batch es b)). length c = length sources) \<and>
    batch_endpoints cfg es b = set sources \<union> set targets"
proof -
  let ?m = "mapped_edges_batch es b"
  from assms have run: "map_edges_columns (schema_column_map es) b = Inr ?m"
    and s: "SOURCE_COLUMN_NAME cfg \<in> set (keys ?m)"
    and t: "TARGET_COLUMN_NAME cfg \<in> set (keys ?m)"
    and len: "list_all (\<lambda>c. length c = length (column_cells ?m (SOURCE_COLUMN_NAME cfg)))
       (dict_values ?m)"
    by (simp_all add: edges_batch_complete_def Let_def)
  from s obtain sources where sources: "map_of ?m (SOURCE_COLUMN_NAME cfg) = Some sources"
    by (auto simp: in_keys_iff)
  from t obtain targets where targets: "map_of ?m (TARGET_COLUMN_NAME cfg) = Some targets"
    by (auto simp: in_keys_iff)
  from len sources have rect: "\<forall>c \<in> set (dict_values ?m). length c = length sources"
    by (simp add: list_all_iff column_cells_def)
  have ends: "batch_endpoints cfg es b = set sources \<union> set targets"
    by (simp add: batch_endpoints_def column_cells_def sources targets)
  from run sources targets rect ends show ?thesis
    by (intro exI conjI)
qed

lemma store_edges_batch:
  assumes "edges_batch_complete cfg es b"
  shows "\<exists>nd'. insert_edges_batch (store_ops cfg) es (nd, seen) b
            = Inr (nd', seen \<union> batch_endpoints cfg es b) \<and>
          edge_rows nd' = edge_rows nd @ to_records (mapped_edges_batch es b)"
proof -
  from complete_edges_batch [OF assms] obtain sources targets where
    run: "map_edges_columns (schema_column_map es) b = Inr (mapped_edges_batch es b)"
    and sources: "map_of (mapped_edges_batch es b) (SOURCE_COLUMN_NAME cfg) = Some sources"
    and targets: "map_of (mapped_edges_batch es b) (TARGET_COLUMN_NAME cfg) = Some targets"
    and rect: "\<forall>c \<in> set (dict_values (mapped_edges_batch es b)). length c = length sources"
    and ends: "batch_endpoints cfg es b = set sources \<union> set targets"
    by (elim exE conjE)
  from store_insert_edges_adds_endpoints [OF sources targets rect, of nd seen]
  obtain nd' ids where
    ins: "store_insert_edges cfg nd (to_records (mapped_edges_batch es b)) seen = Inr (nd', ids)"
    and seen: "seen \<union> ids = seen \<union> set sources \<union> set targets"
    and rows: "edge_rows nd' = edge_rows nd @ to_records (mapped_edges_batch es b)"
    by (elim exE conjE)
  have "insert_edges_batch (store_ops cfg) es (nd, seen) b
      = Inr (nd', seen \<union> batch_endpoints cfg es b)"
    by (simp add: insert_edges_batch_def run store_ops_def ins seen ends Un_assoc)
  with rows show ?thesis
    by (intro exI conjI)
qed

lemma store_edges_loop:
  assumes "list_all (edges_batch_complete cfg es) bs"
  shows "\<exists>nd'. for_batches (insert_edges_batch (store_ops cfg) es) bs (nd, seen)
            = Inr (nd', seen \<union> (\<Union>b \<in> set bs. batch_endpoints cfg es b)) \<and>
          edge_rows nd' = edge_rows nd @
            concat (map (\<lambda>b. to_records (mapped_edges_batch es b)) bs)"
  using assms
proof (induction bs arbitrary: nd seen)
  case Nil
  then show ?case by simp
next
  case (Cons b bs)
  from Cons.prems have b: "edges_batch_complete cfg es b"
    and bs: "list_all (edges_batch_complete cfg es) bs"
    by simp_all
  from store_edges_batch [OF b, of nd seen] obtain nd1 where
    first: "insert_edges_batch (store_ops cfg) es (nd, seen) b
            = Inr (nd1, seen \<union> batch_endpoints cfg es b)"
    and rows1: "edge_rows nd1 = edge_rows nd @ to_records (mapped_edges_batch es b)"
    by (elim exE conjE)
  from Cons.IH [OF bs, of nd1 "seen \<union> batch_endpoints cfg es b"] obtain nd' where
    rest: "for_batches (insert_edges_batch (store_ops cfg) es) bs
             (nd1, seen \<union> batch_endpoints cfg es b)
            = Inr (nd', seen \<union> batch_endpoints cfg es b \<union>
                         (\<Union>b \<in> set bs. batch_endpoints cfg es b))"
    and rows: "edge_rows nd' = edge_rows nd1 @
            concat (map (\<lambda>b. to_records (mapped_edges_batch es b)) bs)"
    by (elim exE conjE)
  have "for_batches (insert_edges_batch (store_ops cfg) es) (b # bs) (nd, seen)
      = Inr (nd', seen \<union> (\<Union>b \<in> set (b # bs). batch_endpoints cfg es b))"
    by (simp add: first rest Un_assoc)
  moreover have "edge_rows nd' = edge_rows nd @
      concat (map (\<lambda>b. to_records (mapped_edges_batch es b)) (b # bs))"
    by (simp add: rows rows1)
  ultimately show ?case
    by (intro exI conjI)
qed

lemma store_nodes_batch:
  assumes "nodes_batch_complete cfg ns b"
  shows "\<exists>nd'. insert_nodes_batch cfg (store_ops cfg) ns (nd, seen) b
            = Inr (nd', seen \<union>
                 set (column_cells (mapped_nodes_batch cfg ns b) (ID_COLUMN_NAME cfg))) \<and>
          edge_rows nd' = edge_rows nd"
proof -
  let ?m = "mapped_nodes_batch cfg ns b"
  from assms have run: "map_nodes_columns cfg (schema_column_map ns) b = Inr ?m"
    and i: "ID_COLUMN_NAME cfg \<in> set (keys ?m)"
    by (simp_all add: nodes_batch_complete_def Let_def)
  from i obtain ids where ids: "map_of ?m (ID_COLUMN_NAME cfg) = Some ids"
    by (auto simp: in_keys_iff)
  then have cells: "column_cells ?m (ID_COLUMN_NAME cfg) = ids"
    by (simp add: column_cells_def)
  show ?thesis
    unfolding cells
    by (simp add: insert_nodes_batch_def run ids store_ops_def store_insert_nodes_def)
qed

lemma store_nodes_loop:
  assumes "list_all (nodes_batch_complete cfg ns) bs"
  shows "\<exists>nd'. for_batches (insert_nodes_batch cfg (store_ops cfg) ns) bs (nd, seen)
            = Inr (nd', seen \<union>
                 (\<Union>b \<in> set bs.
                    set (column_cells (mapped_nodes_batch cfg ns b) (ID_COLUMN_NAME cfg)))) \<and>
          edge_rows nd' = edge_rows nd"
  using assms
proof (induction bs arbitrary: nd seen)
  case Nil
  then show ?case by simp
next
  case (Cons b bs)
  let ?ids = "\<lambda>b. set (column_cells (mapped_nodes_batch cfg ns b) (ID_COLUMN_NAME cfg))"
  from Cons.prems have b: "nodes_batch_complete cfg ns b"
    and bs: "list_all (nodes_batch_complete cfg ns) bs"
    by simp_all
  from store_nodes_batch [OF b, of nd seen] obtain nd1 where
    first: "insert_nodes_batch cfg (store_ops cfg) ns (nd, seen) b = Inr (nd1, seen \<union> ?ids b)"
    and rows1: "edge_rows nd1 = edge_rows nd"
    by (elim exE conjE)
  from Cons.IH [OF bs, of nd1 "seen \<union> ?ids b"] obtain nd' where
    rest: "for_batches (insert_nodes_batch cfg (store_ops cfg) ns) bs (nd1, seen \<union> ?ids b)
            = Inr (nd', seen \<union> ?ids b \<union> (\<Union>b \<in> set bs. ?ids b))"
    and rows: "edge_rows nd' = edge_rows nd1"
    by (elim exE conjE)
  have "for_batches (insert_nodes_batch cfg (store_ops cfg) ns) (b # bs) (nd, seen)
      = Inr (nd', seen \<union> (\<Union>b \<in> set (b # bs). ?ids b))"
    by (simp add: first rest Un_assoc)
  moreover have "edge_rows nd' = edge_rows nd"
    by (simp add: rows rows1)
  ultimately show ?case
    by (intro exI conjI)
qed

text \<open>The state after the nodes table, from which the loop over the edge batches starts.\<close>

lemma insert_table_data_append:
  "insert_table_data_into_network_graph cfg ops s0 (earlier @ later) es nt ns =
     (case insert_table_data_into_network_graph cfg ops s0 earlier es nt ns of
        Inl failure \<Rightarrow> Inl failure
      | Inr st \<Rightarrow> for_batches (insert_edges_batch ops es) later st)"
  by (simp add: insert_table_data_into_network_graph_def Let_def for_batches_append
      split: sum.splits)

text \<open>
  Claim C4. With the store as the specification describes it, the insertion of an
  edges table whose batches are complete, alone or after a nodes table whose batches
  are complete, succeeds whatever identifiers have been seen before: the final set of
  seen identifiers consists of the identifiers of the nodes table and the endpoints of
  all edge batches, and the edges table of the store has received the records of all
  batches. For any store: the run over an edges table is the run over its earlier
  batches followed by the run over the later ones from the store and the set that the
  earlier ones left; the set after the earlier batches is contained in the final one;
  an edges batch leaves the set it was given together with what
  \<^verbatim>\<open>insert_edges\<close> returned, and a nodes batch leaves it together with the cells
  of its identifier column.
\<close>

theorem seen_set_grows_and_covers_endpoints:
  "(list_all (edges_batch_complete cfg edges_schema) edges_table \<and>
    (\<forall>batches. nodes_table = Some batches \<longrightarrow>
       list_all (nodes_batch_complete cfg nodes_schema) batches) \<longrightarrow>
      (\<exists>nd'. insert_table_data_into_network_graph cfg (store_ops cfg) nd edges_table
                edges_schema nodes_table nodes_schema
              = Inr (nd', table_node_ids cfg nodes_schema nodes_table \<union>
                          (\<Union>b \<in> set edges_table. batch_endpoints cfg edges_schema b)) \<and>
            edge_rows nd' = edge_rows nd @
              concat (map (\<lambda>b. to_records (mapped_edges_batch edges_schema b)) edges_table))) \<and>
   insert_table_data_into_network_graph cfg ops s0 (earlier @ later) edges_schema nt ns
     = (case insert_table_data_into_network_graph cfg ops s0 earlier edges_schema nt ns of
          Inl failure \<Rightarrow> Inl failure
        | Inr st \<Rightarrow> for_batches (insert_edges_batch ops edges_schema) later st) \<and>
   (insert_table_data_into_network_graph cfg ops s0 (earlier @ later) edges_schema nt ns
      = Inr (sf, seenf) \<longrightarrow>
      (\<exists>s1 seen1.
         insert_table_data_into_network_graph cfg ops s0 earlier edges_schema nt ns
           = Inr (s1, seen1) \<and>
         for_batches (insert_edges_batch ops edges_schema) later (s1, seen1) = Inr (sf, seenf) \<and>
         seen1 \<subseteq> seenf)) \<and>
   (insert_edges_batch ops edges_schema (s, seen) b = Inr (s', seen') \<longrightarrow>
      (\<exists>rows ids. insert_edges ops s rows seen = Inr (s', ids) \<and> seen' = seen \<union> ids)) \<and>
   (insert_nodes_batch cfg ops ns (s, seen) b = Inr (s', seen') \<longrightarrow>
      (\<exists>m ids. map_nodes_columns cfg (schema_column_map ns) b = Inr m \<and>
         map_of m (ID_COLUMN_NAME cfg) = Some ids \<and> seen' = seen \<union> set ids))"
proof (intro conjI impI)
  assume h: "list_all (edges_batch_complete cfg edges_schema) edges_table \<and>
    (\<forall>batches. nodes_table = Some batches \<longrightarrow>
       list_all (nodes_batch_complete cfg nodes_schema) batches)"
  then have edges: "list_all (edges_batch_complete cfg edges_schema) edges_table"
    and nodes: "\<forall>batches. nodes_table = Some batches \<longrightarrow>
       list_all (nodes_batch_complete cfg nodes_schema) batches"
    by simp_all
  let ?ends = "\<Union>b \<in> set edges_table. batch_endpoints cfg edges_schema b"
  let ?rows = "concat (map (\<lambda>b. to_records (mapped_edges_batch edges_schema b)) edges_table)"
  have after_nodes: "\<exists>nd1.
      (case nodes_table of
         None \<Rightarrow> Inr (nd, {})
       | Some batches \<Rightarrow>
           for_batches (insert_nodes_batch cfg (store_ops cfg) nodes_schema) batches (nd, {}))
        = Inr (nd1, table_node_ids cfg nodes_schema nodes_table) \<and>
      edge_rows nd1 = edge_rows nd"
  proof (cases nodes_table)
    case None
    then show ?thesis by (simp add: table_node_ids_def)
  next
    case (Some batches)
    with nodes have "list_all (nodes_batch_complete cfg nodes_schema) batches" by simp
    from store_nodes_loop [OF this, of nd "{}"] show ?thesis
      unfolding Some by (simp add: table_node_ids_def)
  qed
  then obtain nd1 where
    first: "(case nodes_table of
         None \<Rightarrow> Inr (nd, {})
       | Some batches \<Rightarrow>
           for_batches (insert_nodes_batch cfg (store_ops cfg) nodes_schema) batches (nd, {}))
        = Inr (nd1, table_node_ids cfg nodes_schema nodes_table)"
    and rows1: "edge_rows nd1 = edge_rows nd"
    by (elim exE conjE)
  from store_edges_loop [OF edges, of nd1 "table_node_ids cfg nodes_schema nodes_table"]
  obtain nd' where
    rest: "for_batches (insert_edges_batch (store_ops cfg) edges_schema) edges_table
             (nd1, table_node_ids cfg nodes_schema nodes_table)
            = Inr (nd', table_node_ids cfg nodes_schema nodes_table \<union> ?ends)"
    and rows: "edge_rows nd' = edge_rows nd1 @ ?rows"
    by (elim exE conjE)
  have "insert_table_data_into_network_graph cfg (store_ops cfg) nd edges_table
                edges_schema nodes_table nodes_schema
              = Inr (nd', table_node_ids cfg nodes_schema nodes_table \<union> ?ends)"
    unfolding insert_table_data_into_network_graph_def Let_def first by (simp add: rest)
  moreover have "edge_rows nd' = edge_rows nd @ ?rows"
    by (simp add: rows rows1)
  ultimately show "\<exists>nd'. insert_table_data_into_network_graph cfg (store_ops cfg) nd edges_table
                edges_schema nodes_table nodes_schema
              = Inr (nd', table_node_ids cfg nodes_schema nodes_table \<union> ?ends) \<and>
            edge_rows nd' = edge_rows nd @ ?rows"
    by (intro exI conjI)
next
  show "insert_table_data_into_network_graph cfg ops s0 (earlier @ later) edges_schema nt ns
     = (case insert_table_data_into_network_graph cfg ops s0 earlier edges_schema nt ns of
          Inl failure \<Rightarrow> Inl failure
        | Inr st \<Rightarrow> for_batches (insert_edges_batch ops edges_schema) later st)"
    by (rule insert_table_data_append)
next
  assume run: "insert_table_data_into_network_graph cfg ops s0 (earlier @ later)
      edges_schema nt ns = Inr (sf, seenf)"
  then obtain s1 seen1 where
    first: "insert_table_data_into_network_graph cfg ops s0 earlier edges_schema nt ns
           = Inr (s1, seen1)"
    and rest: "for_batches (insert_edges_batch ops edges_schema) later (s1, seen1)
           = Inr (sf, seenf)"
    unfolding insert_table_data_append by (auto split: sum.splits)
  from edges_loop_grows [OF rest] have "seen1 \<subseteq> seenf" .
  with first rest show "\<exists>s1 seen1.
         insert_table_data_into_network_graph cfg ops s0 earlier edges_schema nt ns
           = Inr (s1, seen1) \<and>
         for_batches (insert_edges_batch ops edges_schema) later (s1, seen1) = Inr (sf, seenf) \<and>
         seen1 \<subseteq> seenf"
    by (intro exI conjI)
next
  assume "insert_edges_batch ops edges_schema (s, seen) b = Inr (s', seen')"
  from insert_edges_batch_Inr [OF this]
  show "\<exists>rows ids. insert_edges ops s rows seen = Inr (s', ids) \<and> seen' = seen \<union> ids"
    by (elim exE conjE) (intro exI conjI)
next
  assume "insert_nodes_batch cfg ops ns (s, seen) b = Inr (s', seen')"
  from insert_nodes_batch_Inr [OF this]
  show "\<exists>m ids. map_nodes_columns cfg (schema_column_map ns) b = Inr m \<and>
         map_of m (ID_COLUMN_NAME cfg) = Some ids \<and> seen' = seen \<union> set ids"
    by (elim exE conjE) (intro exI conjI)
qed

lemma example_edges_complete:
  "list_all (edges_batch_complete example_defaults example_edges_schema) example_edges_table"
  by code_simp

lemma example_edges_records:
  "concat (map (\<lambda>b. to_records (mapped_edges_batch example_edges_schema b)) example_edges_table)
     = [[(''source'', PyStr ''n1''), (''target'', PyStr ''n2'')],
        [(''source'', PyStr ''n2''), (''target'', PyStr ''n3'')],
        [(''source'', PyStr ''n3''), (''target'', PyStr ''n4'')]]"
  by code_simp

lemma cells_eval:
  "map (\<lambda>b. column_cells (mapped_edges_batch example_edges_schema b)
                (SOURCE_COLUMN_NAME example_defaults) @
              column_cells (mapped_edges_batch example_edges_schema b)
                (TARGET_COLUMN_NAME example_defaults)) example_edges_table
    = [[PyStr ''n1'', PyStr ''n2'', PyStr ''n2'', PyStr ''n3''], [PyStr ''n3'', PyStr ''n4'']]"
  by code_simp

lemma endpoints_as_cells:
  "(\<Union>b \<in> set bs. batch_endpoints cfg es b)
     = set (concat (map (\<lambda>b. column_cells (mapped_edges_batch es b) (SOURCE_COLUMN_NAME cfg) @
              column_cells (mapped_edges_batch es b) (TARGET_COLUMN_NAME cfg)) bs))"
  by (induction bs) (simp_all add: batch_endpoints_def Un_assoc)

lemma example_edges_endpoints:
  "table_node_ids example_defaults None None \<union>
     (\<Union>b \<in> set example_edges_table. batch_endpoints example_defaults example_edges_schema b)
     = {PyStr ''n1'', PyStr ''n2'', PyStr ''n3'', PyStr ''n4''}"
  unfolding endpoints_as_cells cells_eval
  by (simp add: table_node_ids_def)

lemma example_edges_split:
  "example_edges_table =
     [[(''from'', [PyStr ''n1'', PyStr ''n2'']), (''to'', [PyStr ''n2'', PyStr ''n3''])]] @
     [[(''from'', [PyStr ''n3'']), (''to'', [PyStr ''n4''])]]"
  by (simp add: example_edges_table_def)

lemma example_first_batch_complete:
  "edges_batch_complete example_defaults example_edges_schema
     [(''from'', [PyStr ''n1'', PyStr ''n2'']), (''to'', [PyStr ''n2'', PyStr ''n3''])]"
  by code_simp

lemma example_nodes_batch_complete:
  "nodes_batch_complete example_defaults None [(''id'', [PyStr ''n1'', PyStr ''n2''])]"
  by code_simp

theorem seen_set_grows_and_covers_endpoints_witness:
  "(\<exists>nd'. insert_table_data_into_network_graph example_defaults (store_ops example_defaults)
           empty_store example_edges_table example_edges_schema None None
         = Inr (nd', {PyStr ''n1'', PyStr ''n2'', PyStr ''n3'', PyStr ''n4''}) \<and>
       edge_rows nd' =
         [[(''source'', PyStr ''n1''), (''target'', PyStr ''n2'')],
          [(''source'', PyStr ''n2''), (''target'', PyStr ''n3'')],
          [(''source'', PyStr ''n3''), (''target'', PyStr ''n4'')]]) \<and>
   (\<exists>s1 seen1.
       insert_table_data_into_network_graph example_defaults (store_ops example_defaults)
           empty_store
           [[(''from'', [PyStr ''n1'', PyStr ''n2'']), (''to'', [PyStr ''n2'', PyStr ''n3''])]]
           example_edges_schema None None
         = Inr (s1, seen1) \<and>
       seen1 \<subseteq> {PyStr ''n1'', PyStr ''n2'', PyStr ''n3'', PyStr ''n4''}) \<and>
   (\<exists>s' rows ids.
       insert_edges (store_ops example_defaults) empty_store rows {} = Inr (s', ids) \<and>
       batch_endpoints example_defaults example_edges_schema
           [(''from'', [PyStr ''n1'', PyStr ''n2'']), (''to'', [PyStr ''n2'', PyStr ''n3''])]
         = ids) \<and>
   (\<exists>m ids.
       map_nodes_columns example_defaults (schema_column_map None)
           [(''id'', [PyStr ''n1'', PyStr ''n2''])] = Inr m \<and>
       map_of m (ID_COLUMN_NAME example_defaults) = Some ids \<and>
       set (column_cells
              (mapped_nodes_batch example_defaults None [(''id'', [PyStr ''n1'', PyStr ''n2''])])
              (ID_COLUMN_NAME example_defaults))
         = set ids)"
proof (intro conjI)
  let ?cfg = example_defaults
  let ?b1 = "[(''from'', [PyStr ''n1'', PyStr ''n2'']), (''to'', [PyStr ''n2'', PyStr ''n3''])]"
  let ?b2 = "[(''from'', [PyStr ''n3'']), (''to'', [PyStr ''n4''])]"
  let ?nb = "[(''id'', [PyStr ''n1'', PyStr ''n2''])]"
  let ?all = "{PyStr ''n1'', PyStr ''n2'', PyStr ''n3'', PyStr ''n4''}"
  have h: "list_all (edges_batch_complete ?cfg example_edges_schema) example_edges_table \<and>
    (\<forall>batches. (None :: batch list option) = Some batches \<longrightarrow>
       list_all (nodes_batch_complete ?cfg None) batches)"
    using example_edges_complete by simp
  have start: "edge_rows empty_store = []"
    by (simp add: empty_store_def)
  note whole = seen_set_grows_and_covers_endpoints
    [THEN conjunct1, THEN mp, OF h, of empty_store,
     unfolded example_edges_endpoints example_edges_records start append_Nil]
  from whole
  show "\<exists>nd'. insert_table_data_into_network_graph ?cfg (store_ops ?cfg)
           empty_store example_edges_table example_edges_schema None None
         = Inr (nd', ?all) \<and>
       edge_rows nd' =
         [[(''source'', PyStr ''n1''), (''target'', PyStr ''n2'')],
          [(''source'', PyStr ''n2''), (''target'', PyStr ''n3'')],
          [(''source'', PyStr ''n3''), (''target'', PyStr ''n4'')]]" .
  from whole obtain nd' where
    run: "insert_table_data_into_network_graph ?cfg (store_ops ?cfg)
           empty_store ([?b1] @ [?b2]) example_edges_schema None None = Inr (nd', ?all)"
    unfolding example_edges_split by (elim exE conjE)
  from seen_set_grows_and_covers_endpoints
    [THEN conjunct2, THEN conjunct2, THEN conjunct1, THEN mp, OF run]
  obtain s1 seen1 where
    first: "insert_table_data_into_network_graph ?cfg (store_ops ?cfg)
           empty_store [?b1] example_edges_schema None None = Inr (s1, seen1)"
    and grows: "seen1 \<subseteq> ?all"
    by (elim exE conjE)
  from first grows
  show "\<exists>s1 seen1.
       insert_table_data_into_network_graph ?cfg (store_ops ?cfg) empty_store [?b1]
           example_edges_schema None None = Inr (s1, seen1) \<and>
       seen1 \<subseteq> ?all"
    by (intro exI conjI)
  from store_edges_batch [OF example_first_batch_complete, of empty_store "{}"]
  obtain s' where
    batch: "insert_edges_batch (store_ops ?cfg) example_edges_schema (empty_store, {}) ?b1
      = Inr (s', {} \<union> batch_endpoints ?cfg example_edges_schema ?b1)"
    by (elim exE conjE)
  from seen_set_grows_and_covers_endpoints
    [THEN conjunct2, THEN conjunct2, THEN conjunct2, THEN conjunct1, THEN mp, OF batch]
  obtain rows ids where
    ins: "insert_edges (store_ops ?cfg) empty_store rows {} = Inr (s', ids)"
    and eq: "{} \<union> batch_endpoints ?cfg example_edges_schema ?b1 = {} \<union> ids"
    by (elim exE conjE)
  from eq have "batch_endpoints ?cfg example_edges_schema ?b1 = ids"
    by simp
  with ins show "\<exists>s' rows ids.
       insert_edges (store_ops ?cfg) empty_store rows {} = Inr (s', ids) \<and>
       batch_endpoints ?cfg example_edges_schema ?b1 = ids"
    by (intro exI conjI)
  from store_nodes_batch [OF example_nodes_batch_complete, of empty_store "{}"]
  obtain s'' where
    nodes: "insert_nodes_batch ?cfg (store_ops ?cfg) None (empty_store, {}) ?nb
      = Inr (s'', {} \<union> set (column_cells (mapped_nodes_batch ?cfg None ?nb)
                                (ID_COLUMN_NAME ?cfg)))"
    by (elim exE conjE)
  from seen_set_grows_and_covers_endpoints
    [THEN conjunct2, THEN conjunct2, THEN conjunct2, THEN conjunct2, THEN mp, OF nodes]
  obtain m ids' where
    m: "map_nodes_columns ?cfg (schema_column_map None) ?nb = Inr m"
    and ids': "map_of m (ID_COLUMN_NAME ?cfg) = Some ids'"
    and eq': "{} \<union> set (column_cells (mapped_nodes_batch ?cfg None ?nb) (ID_COLUMN_NAME ?cfg))
         = {} \<union> set ids'"
    by (elim exE conjE)
  from eq' have "set (column_cells (mapped_nodes_batch ?cfg None ?nb) (ID_COLUMN_NAME ?cfg))
      = set ids'"
    by simp
  with m ids' show "\<exists>m ids.
       map_nodes_columns ?cfg (schema_column_map None) ?nb = Inr m \<and>
       map_of m (ID_COLUMN_NAME ?cfg) = Some ids \<and>
       set (column_cells (mapped_nodes_batch ?cfg None ?nb) (ID_COLUMN_NAME ?cfg)) = set ids"
    by (intro exI conjI)
qed


section \<open>Properties of the tabular view adapter\<close>

lemma slice_zero_eq_none: "slice db w offset (Some 0) = slice db w offset None"
  by (simp add: slice_def)

text \<open>The limit that \<^verbatim>\<open>slice\<close> takes from \<^verbatim>\<open>num_rows\<close>, and the adapter then.\<close>

lemma num_rows_table:
  assumes "db (table_name w) = Some t"
  shows "num_rows db w =
    (Inr (case cached_num_rows w of Some n \<Rightarrow> n | None \<Rightarrow> int (length (table_rows t))),
     w\<lparr>cached_num_rows :=
         Some (case cached_num_rows w of Some n \<Rightarrow> n | None \<Rightarrow> int (length (table_rows t)))\<rparr>)"
  using assms by (simp add: num_rows_def retrieve_number_of_rows_def split: option.splits)

lemma column_names_table:
  assumes "db (table_name w) = Some t"
  shows "column_names db w =
    (Inr (case cached_column_names w of Some cs \<Rightarrow> cs | None \<Rightarrow> columns t),
     w\<lparr>cached_column_names :=
         Some (case cached_column_names w of Some cs \<Rightarrow> cs | None \<Rightarrow> columns t)\<rparr>)"
  using assms by (simp add: column_names_def retrieve_column_names_def split: option.splits)

lemma slice_none:
  assumes t: "db (table_name w) = Some t"
  shows "slice db w offset None =
    (fill_result_dict (case cached_column_names w of Some cs \<Rightarrow> cs | None \<Rightarrow> columns t)
       (if (case cached_num_rows w of Some n \<Rightarrow> n | None \<Rightarrow> int (length (table_rows t))) < 0
        then drop (nat offset) (table_rows t)
        else take (nat (case cached_num_rows w of
                          Some n \<Rightarrow> n | None \<Rightarrow> int (length (table_rows t))))
               (drop (nat offset) (table_rows t))),
     w\<lparr>cached_num_rows :=
         Some (case cached_num_rows w of Some n \<Rightarrow> n | None \<Rightarrow> int (length (table_rows t))),
       cached_column_names :=
         Some (case cached_column_names w of Some cs \<Rightarrow> cs | None \<Rightarrow> columns t)\<rparr>)"
proof -
  let ?n = "case cached_num_rows w of Some n \<Rightarrow> n | None \<Rightarrow> int (length (table_rows t))"
  let ?w1 = "w\<lparr>cached_num_rows := Some ?n\<rparr>"
  have t1: "db (table_name ?w1) = Some t"
    using t by simp
  show ?thesis
    unfolding slice_def option.case num_rows_table [of db w t, OF t] prod.case sum.case Let_def
      column_names_table [of db ?w1 t, OF t1]
    using t by (auto simp: run_select_def Let_def)
qed


text \<open>
  Claim C9 (amended). \<^verbatim>\<open>slice\<close> called with length 0 does what it does with the
  length left out, in its result and in what it leaves in the adapter: the limit of the
  query is \<^verbatim>\<open>num_rows\<close>, the number of rows that the adapter counted when it first
  needed it. When the table has no more rows than were counted then (on a new adapter
  the rows are counted now) and the column names are those of the table, the result
  holds, for every column, the cells of all rows after the first \<open>offset\<close> ones; the
  count and the column names stay in the adapter.
\<close>

theorem slice_length_zero_returns_rest:
  "slice db w offset (Some 0) = slice db w offset None \<and>
   (db (table_name w) = Some t \<and>
    list_all (\<lambda>r. length (columns t) \<le> length r) (table_rows t) \<and>
    (\<forall>n. cached_num_rows w = Some n \<longrightarrow> int (length (table_rows t)) \<le> n) \<and>
    (\<forall>cs. cached_column_names w = Some cs \<longrightarrow> cs = columns t) \<longrightarrow>
      fst (slice db w offset (Some 0))
        = Inr (map (\<lambda>(i, cn). (cn, map (\<lambda>r. r ! i) (drop (nat offset) (table_rows t))))
                 (enumerate 0 (columns t))) \<and>
      cached_num_rows (snd (slice db w offset (Some 0)))
        = Some (case cached_num_rows w of Some n \<Rightarrow> n | None \<Rightarrow> int (length (table_rows t))) \<and>
      cached_column_names (snd (slice db w offset (Some 0))) = Some (columns t))"
proof (intro conjI impI)
  show "slice db w offset (Some 0) = slice db w offset None"
    by (rule slice_zero_eq_none)
next
  let ?n = "case cached_num_rows w of Some n \<Rightarrow> n | None \<Rightarrow> int (length (table_rows t))"
  let ?cs = "case cached_column_names w of Some cs \<Rightarrow> cs | None \<Rightarrow> columns t"
  let ?rest = "drop (nat offset) (table_rows t)"
  assume h: "db (table_name w) = Some t \<and>
    list_all (\<lambda>r. length (columns t) \<le> length r) (table_rows t) \<and>
    (\<forall>n. cached_num_rows w = Some n \<longrightarrow> int (length (table_rows t)) \<le> n) \<and>
    (\<forall>cs. cached_column_names w = Some cs \<longrightarrow> cs = columns t)"
  then have t: "db (table_name w) = Some t"
    and wide: "list_all (\<lambda>r. length (columns t) \<le> length r) (table_rows t)"
    and count: "\<forall>n. cached_num_rows w = Some n \<longrightarrow> int (length (table_rows t)) \<le> n"
    and names: "\<forall>cs. cached_column_names w = Some cs \<longrightarrow> cs = columns t"
    by simp_all
  from count have n: "int (length (table_rows t)) \<le> ?n"
    by (simp split: option.splits)
  from names have cs: "?cs = columns t"
    by (simp split: option.splits)
  from n have all: "(if ?n < 0 then ?rest else take (nat ?n) ?rest) = ?rest"
    by simp
  from wide have wide_rest: "list_all (\<lambda>r. length (columns t) \<le> length r) ?rest"
    by (auto simp: list_all_iff dest: in_set_dropD)
  note run = slice_none [of db w t offset, OF t, unfolded all cs]
  show "fst (slice db w offset (Some 0))
        = Inr (map (\<lambda>(i, cn). (cn, map (\<lambda>r. r ! i) (drop (nat offset) (table_rows t))))
                 (enumerate 0 (columns t)))"
    unfolding slice_zero_eq_none run using wide_rest by (simp add: fill_result_dict_def)
  show "cached_num_rows (snd (slice db w offset (Some 0))) = Some ?n"
    unfolding slice_zero_eq_none run by simp
  show "cached_column_names (snd (slice db w offset (Some 0))) = Some (columns t)"
    unfolding slice_zero_eq_none run by simp
qed

theorem slice_length_zero_returns_rest_witness:
  "fst (slice example_db (NetworkDataTabularWrap ''nodes'') 1 (Some 0))
     = Inr [(''id'', [PyInt 2, PyInt 3]), (''label'', [PyStr ''b'', PyStr ''c''])] \<and>
   cached_num_rows (snd (slice example_db (NetworkDataTabularWrap ''nodes'') 1 (Some 0))) = Some 3"
proof -
  let ?t = "\<lparr>columns = [''id'', ''label''],
         table_rows = [[PyInt 1, PyStr ''a''], [PyInt 2, PyStr ''b''], [PyInt 3, PyStr ''c'']]\<rparr>"
  let ?w = "NetworkDataTabularWrap ''nodes''"
  have h: "example_db (table_name ?w) = Some ?t \<and>
    list_all (\<lambda>r. length (columns ?t) \<le> length r) (table_rows ?t) \<and>
    (\<forall>n. cached_num_rows ?w = Some n \<longrightarrow> int (length (table_rows ?t)) \<le> n) \<and>
    (\<forall>cs. cached_column_names ?w = Some cs \<longrightarrow> cs = columns ?t)"
    by (simp add: example_db_def NetworkDataTabularWrap_def)
  have fresh: "cached_num_rows ?w = None"
    by (simp add: NetworkDataTabularWrap_def)
  from slice_length_zero_returns_rest [of example_db ?w 1 ?t, THEN conjunct2, THEN mp, OF h]
  show ?thesis
    unfolding fresh by simp
qed

text \<open>
  The claim as it was stated, with the limit the current number of rows, fails on an
  adapter that has been used before: the adapter counted one row when the table had
  one row; on the table of three rows, \<^verbatim>\<open>slice\<close> with offset 0 and length 0 returns
  that one row and not the three.
\<close>

theorem slice_stale_count_counterexample:
  "fst (slice example_db (snd (slice earlier_db (NetworkDataTabularWrap ''nodes'') 0 None))
          0 (Some 0))
     = Inr [(''id'', [PyInt 1]), (''label'', [PyStr ''a''])] \<and>
   retrieve_number_of_rows example_db (NetworkDataTabularWrap ''nodes'') = Inr 3"
  by (simp add: slice_def num_rows_def column_names_def retrieve_number_of_rows_def
      retrieve_column_names_def run_select_def fill_result_dict_def example_db_def
      earlier_db_def NetworkDataTabularWrap_def)


section \<open>Properties of the GraphML parser\<close>






lemma add_nodes_result:
  "add_nodes m els g = Inr g' \<Longrightarrow>
     \<exists>ns. graph_nodes g' = graph_nodes g @ ns \<and>
       list_all2 (\<lambda>el n. read_data m (getElementsByTagName el ''data'') new_node_attr = Inr (node_attr n)
                     \<and> node_id n = getAttribute el ''id'') els ns \<and>
       graph_edges g' = graph_edges g \<and> graph_name g' = graph_name g"
proof (induction els arbitrary: g)
  case Nil
  then show ?case by simp
next
  case (Cons el els)
  from Cons.prems obtain item where
    item: "read_data m (getElementsByTagName el ''data'') new_node_attr = Inr item"
    and run: "add_nodes m els
        (g\<lparr>graph_nodes := graph_nodes g @ [\<lparr>node_id = getAttribute el ''id'', node_attr = item\<rparr>]\<rparr>)
        = Inr g'"
    by (auto split: sum.splits)
  from Cons.IH [OF run] obtain ns where
    "graph_nodes g' = (graph_nodes g @ [\<lparr>node_id = getAttribute el ''id'', node_attr = item\<rparr>]) @ ns"
    "list_all2 (\<lambda>el n. read_data m (getElementsByTagName el ''data'') new_node_attr = Inr (node_attr n)
                     \<and> node_id n = getAttribute el ''id'') els ns"
    "graph_edges g' = graph_edges g" "graph_name g' = graph_name g"
    by auto
  with item show ?case
    by (intro exI [of _ "\<lparr>node_id = getAttribute el ''id'', node_attr = item\<rparr> # ns"]) simp
qed

lemma add_edges_result:
  "add_edges m els g = Inr g' \<Longrightarrow>
     \<exists>es. graph_edges g' = graph_edges g @ es \<and>
       list_all2 (\<lambda>el e. read_data m (getElementsByTagName el ''data'') [] = Inr (edge_attr e)) els es \<and>
       graph_nodes g' = graph_nodes g \<and> graph_name g' = graph_name g"
proof (induction els arbitrary: g)
  case Nil
  then show ?case by simp
next
  case (Cons el els)
  from Cons.prems obtain n1 n2 item where
    item: "read_data m (getElementsByTagName el ''data'') [] = Inr item"
    and run: "add_edges m els
        (g\<lparr>graph_edges := graph_edges g @
              [\<lparr>edge_node1 = n1, edge_node2 = n2, edge_attr = item\<rparr>]\<rparr>) = Inr g'"
    by (auto simp: Let_def split: sum.splits option.splits)
  from Cons.IH [OF run] obtain es where
    "graph_edges g' = (graph_edges g @ [\<lparr>edge_node1 = n1, edge_node2 = n2, edge_attr = item\<rparr>]) @ es"
    "list_all2 (\<lambda>el e. read_data m (getElementsByTagName el ''data'') [] = Inr (edge_attr e)) els es"
    "graph_nodes g' = graph_nodes g" "graph_name g' = graph_name g"
    by auto
  with item show ?case
    by (intro exI [of _ "\<lparr>edge_node1 = n1, edge_node2 = n2, edge_attr = item\<rparr> # es"]) simp
qed


subsection \<open>The parse of a well-formed document\<close>

lemma update_fresh: "k \<notin> set (keys d) \<Longrightarrow> AList.update k v d = d @ [(k, v)]"
  by (induction d) (auto simp: keys_def)

lemma map_insort_key: "map f (insort_key f x xs) = insort (f x) (map f xs)"
  by (induction xs) auto

lemma map_sort_key: "map f (sort_key f xs) = sort (map f xs)"
  by (induction xs) (simp_all add: map_insort_key)

lemma convert_known:
  "t \<in> set (keys type_map) \<Longrightarrow> \<exists>s. convert_graphml_type_to_sqlite t = Inr s"
  by (cases "map_of type_map t")
     (auto simp: convert_graphml_type_to_sqlite_def in_keys_iff)

text \<open>The tables after the scan of the keys, when all types are known.\<close>

lemma scan_keys_tables:
  assumes "\<forall>k \<in> set ks. getAttribute k ''attr.type'' \<in> set (keys type_map)"
    and "distinct (keys (node_map kt) @
           map (\<lambda>k. getAttribute k ''id'') (filter (\<lambda>k. getAttribute k ''for'' \<noteq> ''edge'') ks))"
    and "distinct (keys (edge_map kt) @
           map (\<lambda>k. getAttribute k ''id'') (filter (\<lambda>k. getAttribute k ''for'' = ''edge'') ks))"
  shows "\<exists>kt'. scan_keys ks kt = Inr kt' \<and>
    node_map kt' = node_map kt @
      map (\<lambda>k. (getAttribute k ''id'', getAttribute k ''attr.name''))
        (filter (\<lambda>k. getAttribute k ''for'' \<noteq> ''edge'') ks) \<and>
    edge_map kt' = edge_map kt @
      map (\<lambda>k. (getAttribute k ''id'', getAttribute k ''attr.name''))
        (filter (\<lambda>k. getAttribute k ''for'' = ''edge'') ks) \<and>
    set (keys (node_props kt')) = set (keys (node_props kt)) \<union>
      set (map (\<lambda>k. getAttribute k ''attr.name'')
        (filter (\<lambda>k. getAttribute k ''for'' \<noteq> ''edge'') ks)) \<and>
    set (keys (edge_props kt')) = set (keys (edge_props kt)) \<union>
      set (map (\<lambda>k. getAttribute k ''attr.name'')
        (filter (\<lambda>k. getAttribute k ''for'' = ''edge'') ks))"
  using assms
proof (induction ks arbitrary: kt)
  case Nil
  then show ?case by simp
next
  case (Cons k ks)
  from Cons.prems(1) obtain s where
    s: "convert_graphml_type_to_sqlite (getAttribute k ''attr.type'') = Inr s"
    using convert_known by fastforce
  from Cons.prems(1) have types: "\<forall>k \<in> set ks. getAttribute k ''attr.type'' \<in> set (keys type_map)"
    by simp
  show ?case
  proof (cases "getAttribute k ''for'' = ''edge''")
    case True
    let ?kt1 = "kt\<lparr>edge_map := AList.update (getAttribute k ''id'') (getAttribute k ''attr.name'')
                        (edge_map kt),
                    edge_props := AList.update (getAttribute k ''attr.name'') [(''data_type'', s)]
                        (edge_props kt)\<rparr>"
    from Cons.prems(3) True have fresh: "getAttribute k ''id'' \<notin> set (keys (edge_map kt))"
      by auto
    have em: "edge_map ?kt1 = edge_map kt @ [(getAttribute k ''id'', getAttribute k ''attr.name'')]"
      by (simp add: update_fresh [OF fresh])
    have d1: "distinct (keys (node_map ?kt1) @
           map (\<lambda>k. getAttribute k ''id'') (filter (\<lambda>k. getAttribute k ''for'' \<noteq> ''edge'') ks))"
      using Cons.prems(2) True by simp
    have d2: "distinct (keys (edge_map ?kt1) @
           map (\<lambda>k. getAttribute k ''id'') (filter (\<lambda>k. getAttribute k ''for'' = ''edge'') ks))"
      using Cons.prems(3) True by (simp add: em keys_def)
    from Cons.IH [OF types d1 d2] obtain kt' where
      "scan_keys ks ?kt1 = Inr kt'"
      "node_map kt' = node_map ?kt1 @
        map (\<lambda>k. (getAttribute k ''id'', getAttribute k ''attr.name''))
          (filter (\<lambda>k. getAttribute k ''for'' \<noteq> ''edge'') ks)"
      "edge_map kt' = edge_map ?kt1 @
        map (\<lambda>k. (getAttribute k ''id'', getAttribute k ''attr.name''))
          (filter (\<lambda>k. getAttribute k ''for'' = ''edge'') ks)"
      "set (keys (node_props kt')) = set (keys (node_props ?kt1)) \<union>
        set (map (\<lambda>k. getAttribute k ''attr.name'')
          (filter (\<lambda>k. getAttribute k ''for'' \<noteq> ''edge'') ks))"
      "set (keys (edge_props kt')) = set (keys (edge_props ?kt1)) \<union>
        set (map (\<lambda>k. getAttribute k ''attr.name'')
          (filter (\<lambda>k. getAttribute k ''for'' = ''edge'') ks))"
      by (elim exE conjE)
    with True s em show ?thesis
      by (simp add: Let_def keys_update) 
  next
    case False
    let ?kt1 = "kt\<lparr>node_map := AList.update (getAttribute k ''id'') (getAttribute k ''attr.name'')
                        (node_map kt),
                    node_props := AList.update (getAttribute k ''attr.name'') [(''data_type'', s)]
                        (node_props kt)\<rparr>"
    from Cons.prems(2) False have fresh: "getAttribute k ''id'' \<notin> set (keys (node_map kt))"
      by auto
    have nm: "node_map ?kt1 = node_map kt @ [(getAttribute k ''id'', getAttribute k ''attr.name'')]"
      by (simp add: update_fresh [OF fresh])
    have d1: "distinct (keys (node_map ?kt1) @
           map (\<lambda>k. getAttribute k ''id'') (filter (\<lambda>k. getAttribute k ''for'' \<noteq> ''edge'') ks))"
      using Cons.prems(2) False by (simp add: nm keys_def)
    have d2: "distinct (keys (edge_map ?kt1) @
           map (\<lambda>k. getAttribute k ''id'') (filter (\<lambda>k. getAttribute k ''for'' = ''edge'') ks))"
      using Cons.prems(3) False by simp
    from Cons.IH [OF types d1 d2] obtain kt' where
      "scan_keys ks ?kt1 = Inr kt'"
      "node_map kt' = node_map ?kt1 @
        map (\<lambda>k. (getAttribute k ''id'', getAttribute k ''attr.name''))
          (filter (\<lambda>k. getAttribute k ''for'' \<noteq> ''edge'') ks)"
      "edge_map kt' = edge_map ?kt1 @
        map (\<lambda>k. (getAttribute k ''id'', getAttribute k ''attr.name''))
          (filter (\<lambda>k. getAttribute k ''for'' = ''edge'') ks)"
      "set (keys (node_props kt')) = set (keys (node_props ?kt1)) \<union>
        set (map (\<lambda>k. getAttribute k ''attr.name'')
          (filter (\<lambda>k. getAttribute k ''for'' \<noteq> ''edge'') ks))"
      "set (keys (edge_props kt')) = set (keys (edge_props ?kt1)) \<union>
        set (map (\<lambda>k. getAttribute k ''attr.name'')
          (filter (\<lambda>k. getAttribute k ''for'' = ''edge'') ks))"
      by (elim exE conjE)
    with False s nm show ?thesis
      by (simp add: Let_def keys_update)
  qed
qed


text \<open>The sorted schema lists the names in the order of the given identifiers.\<close>

lemma sorted_props_keys:
  assumes "\<forall>(key, name) \<in> set kns. map_of m key = Some name \<and> name \<in> set (keys props)"
    and "distinct (keys acc @ map snd kns)"
  shows "\<exists>acc'. sorted_props (map fst kns) m props acc = Inr acc' \<and>
           keys acc' = keys acc @ map snd kns"
  using assms
proof (induction kns arbitrary: acc)
  case Nil
  then show ?case by simp
next
  case (Cons kn kns)
  obtain key name where kn: "kn = (key, name)" by (cases kn)
  from Cons.prems(1) kn have look: "map_of m key = Some name" and "name \<in> set (keys props)"
    by auto
  then obtain p where p: "map_of props name = Some p"
    by (auto simp: in_keys_iff)
  from Cons.prems(2) kn have fresh: "name \<notin> set (keys acc)" by auto
  have acc1: "keys (AList.update name p acc) = keys acc @ [name]"
    by (simp add: update_fresh [OF fresh] keys_def)
  have "distinct (keys (AList.update name p acc) @ map snd kns)"
    using Cons.prems(2) kn by (simp add: acc1)
  moreover have "\<forall>(key, name) \<in> set kns. map_of m key = Some name \<and> name \<in> set (keys props)"
    using Cons.prems(1) by simp
  ultimately obtain acc' where
    "sorted_props (map fst kns) m props (AList.update name p acc) = Inr acc'"
    "keys acc' = keys (AList.update name p acc) @ map snd kns"
    using Cons.IH by blast
  with kn look p acc1 show ?case by simp
qed

lemma map_of_pairs:
  assumes "distinct (map f xs)" "x \<in> set xs"
  shows "map_of (map (\<lambda>k. (f k, g k)) xs) (f x) = Some (g x)"
proof -
  have "distinct (map fst (map (\<lambda>k. (f k, g k)) xs))"
    using assms(1) by (simp add: comp_def)
  moreover have "(f x, g x) \<in> set (map (\<lambda>k. (f k, g k)) xs)"
    using assms(2) by auto
  ultimately show ?thesis by (rule map_of_is_SomeI)
qed

lemma schema_in_id_order:
  assumes m: "m = map (\<lambda>k. (f k, g k)) ks"
    and ids: "distinct (map f ks)" and names: "distinct (map g ks)"
    and props: "set (map g ks) \<subseteq> set (keys props)"
  shows "\<exists>schema. sorted_props (sort (keys m)) m props [] = Inr schema \<and>
           keys schema = map g (sort_key f ks)"
proof -
  let ?kns = "map (\<lambda>k. (f k, g k)) (sort_key f ks)"
  have "map fst ?kns = map f (sort_key f ks)"
    by (simp add: comp_def)
  also have "\<dots> = sort (map f ks)"
    by (rule map_sort_key)
  also have "map f ks = keys m"
    by (simp add: m keys_def comp_def)
  finally have fst: "map fst ?kns = sort (keys m)" .
  have snd: "map snd ?kns = map g (sort_key f ks)"
    by (simp add: comp_def)
  have ok: "\<forall>(key, name) \<in> set ?kns. map_of m key = Some name \<and> name \<in> set (keys props)"
  proof (clarify, rule conjI)
    fix key name
    assume "(key, name) \<in> set ?kns"
    then obtain k where k: "k \<in> set ks" "key = f k" "name = g k"
      by auto
    from map_of_pairs [OF ids k(1), of g] show "map_of m key = Some name"
      by (simp add: m k)
    from props k(1) show "name \<in> set (keys props)"
      by (auto simp: k)
  qed
  have "distinct (map g (sort_key f ks))"
    using names by (simp add: distinct_map)
  then have dist: "distinct (keys [] @ map snd ?kns)"
    by (simp add: keys_def comp_def)
  note result = sorted_props_keys [OF ok dist, unfolded fst snd keys_Nil append_Nil]
  then show ?thesis .
qed

text \<open>The loops over the data elements, the nodes and the edges do not fail.\<close>

lemma read_data_succeeds:
  assumes "\<forall>d \<in> set ds. getAttribute d ''key'' \<in> set (keys m) \<and>
             (case childNodes d of Element _ _ _ # _ \<Rightarrow> False | _ \<Rightarrow> True)"
  shows "\<exists>item'. read_data m ds item = Inr item'"
  using assms
proof (induction ds arbitrary: item)
  case Nil
  then show ?case by simp
next
  case (Cons d ds)
  then obtain mapped where "map_of m (getAttribute d ''key'') = Some mapped"
    by (auto simp: in_keys_iff)
  moreover have "\<exists>item'. read_data m ds (AList.update mapped v item) = Inr item'" for v
    using Cons by simp
  moreover have "case childNodes d of Element _ _ _ # _ \<Rightarrow> False | _ \<Rightarrow> True"
    using Cons.prems by simp
  ultimately show ?case
    by (auto simp: Let_def split: list.splits xml_node.splits)
qed

lemma add_nodes_succeeds:
  assumes "\<forall>n \<in> set els.
      \<exists>item. read_data m (getElementsByTagName n ''data'') new_node_attr = Inr item"
  shows "\<exists>g'. add_nodes m els g = Inr g'"
  using assms
proof (induction els arbitrary: g)
  case Nil
  then show ?case by simp
next
  case (Cons n els)
  then obtain item where
    "read_data m (getElementsByTagName n ''data'') new_node_attr = Inr item"
    by auto
  moreover have "\<exists>g'. add_nodes m els g1 = Inr g'" for g1
    using Cons by simp
  ultimately show ?case by simp
qed

lemma find_index_of_Some:
  "x \<in> set xs \<Longrightarrow> P x \<Longrightarrow> \<exists>i. find_index_of P xs = Some i"
  by (induction xs) auto

lemma add_edges_succeeds:
  assumes "\<forall>e \<in> set els. \<exists>item. read_data m (getElementsByTagName e ''data'') [] = Inr item"
    and "\<forall>e \<in> set els. getAttribute e ''source'' \<in> set (map node_id (graph_nodes g)) \<and>
           getAttribute e ''target'' \<in> set (map node_id (graph_nodes g))"
  shows "\<exists>g'. add_edges m els g = Inr g'"
  using assms
proof (induction els arbitrary: g)
  case Nil
  then show ?case by simp
next
  case (Cons e els)
  from Cons.prems(1) obtain item where
    item: "read_data m (getElementsByTagName e ''data'') [] = Inr item"
    by auto
  have found: "\<exists>i. find_index_of (\<lambda>n. node_id n = name) (graph_nodes g) = Some i"
    if "name \<in> set (map node_id (graph_nodes g))" for name
  proof -
    from that obtain x where "x \<in> set (graph_nodes g)" "node_id x = name"
      by (auto simp: image_iff)
    then show ?thesis by (rule find_index_of_Some)
  qed
  from Cons.prems(2) have "getAttribute e ''source'' \<in> set (map node_id (graph_nodes g))"
    and "getAttribute e ''target'' \<in> set (map node_id (graph_nodes g))"
    by simp_all
  then obtain n1 n2 where
    n1: "find_index_of (\<lambda>n. node_id n = getAttribute e ''source'') (graph_nodes g) = Some n1"
    and n2: "find_index_of (\<lambda>n. node_id n = getAttribute e ''target'') (graph_nodes g) = Some n2"
    using found by metis
  let ?g1 = "g\<lparr>graph_edges := graph_edges g @
                [\<lparr>edge_node1 = n1, edge_node2 = n2, edge_attr = item\<rparr>]\<rparr>"
  have "\<exists>g'. add_edges m els ?g1 = Inr g'"
    using Cons.prems by (intro Cons.IH) simp_all
  with item n1 n2 show ?case by (simp add: Let_def)
qed

lemma node_ids_of_added:
  assumes "list_all2 (\<lambda>el n. read_data m (getElementsByTagName el ''data'') new_node_attr
                        = Inr (node_attr n)
                     \<and> node_id n = getAttribute el ''id'') els ns"
  shows "map node_id ns = map (\<lambda>n. getAttribute n ''id'') els"
  using assms by (induction els ns rule: list_all2_induct) simp_all


text \<open>
  What the parser returns for a well-formed document. The table from key identifier to
  attribute name is the list of the node keys (edge keys) in document order; the
  attributes of every node (edge) are what the loop over its \<^verbatim>\<open>data\<close> elements
  makes of the attributes of a new node (edge).
\<close>

lemma well_formed_parse:
  assumes wf: "well_formed_graphml document"
  shows "\<exists>g edge_schema node_schema.
    parse_graphml_file document = Inr (g, edge_schema, node_schema) \<and>
    keys node_schema =
      map (\<lambda>k. getAttribute k ''attr.name'')
        (sort_key (\<lambda>k. getAttribute k ''id'')
          (filter (\<lambda>k. getAttribute k ''for'' \<noteq> ''edge'') (elements_by_tag ''key'' document))) \<and>
    keys edge_schema =
      map (\<lambda>k. getAttribute k ''attr.name'')
        (sort_key (\<lambda>k. getAttribute k ''id'')
          (filter (\<lambda>k. getAttribute k ''for'' = ''edge'') (elements_by_tag ''key'' document))) \<and>
    list_all2
      (\<lambda>el n. read_data
          (map (\<lambda>k. (getAttribute k ''id'', getAttribute k ''attr.name''))
            (filter (\<lambda>k. getAttribute k ''for'' \<noteq> ''edge'') (elements_by_tag ''key'' document)))
          (getElementsByTagName el ''data'') new_node_attr = Inr (node_attr n) \<and>
        node_id n = getAttribute el ''id'')
      (elements_by_tag ''node'' document) (graph_nodes g) \<and>
    list_all2
      (\<lambda>el e. read_data
          (map (\<lambda>k. (getAttribute k ''id'', getAttribute k ''attr.name''))
            (filter (\<lambda>k. getAttribute k ''for'' = ''edge'') (elements_by_tag ''key'' document)))
          (getElementsByTagName el ''data'') [] = Inr (edge_attr e))
      (elements_by_tag ''edge'' document) (graph_edges g)"
proof -
  from wf obtain root rs where root: "elements_by_tag ''graphml'' document = root # rs"
    by (cases "elements_by_tag ''graphml'' document") (simp_all add: well_formed_graphml_def)
  from wf root obtain graph gs where graph: "getElementsByTagName root ''graph'' = graph # gs"
    by (cases "getElementsByTagName root ''graph''") (simp_all add: well_formed_graphml_def)
  define key_els where "key_els = getElementsByTagName root ''key''"
  define node_keys where "node_keys = filter (\<lambda>k. getAttribute k ''for'' \<noteq> ''edge'') key_els"
  define edge_keys where "edge_keys = filter (\<lambda>k. getAttribute k ''for'' = ''edge'') key_els"
  define node_els where "node_els = getElementsByTagName graph ''node''"
  define edge_els where "edge_els = getElementsByTagName graph ''edge''"
  define key_id where "key_id = (\<lambda>k. getAttribute k ''id'')"
  define key_name where "key_name = (\<lambda>k. getAttribute k ''attr.name'')"
  note defs = key_els_def node_keys_def edge_keys_def node_els_def edge_els_def
    key_id_def key_name_def
  from wf have all: "elements_by_tag ''key'' document = key_els \<and>
      elements_by_tag ''node'' document = node_els \<and>
      elements_by_tag ''edge'' document = edge_els \<and>
      (\<forall>k \<in> set key_els. getAttribute k ''attr.type'' \<in> set (keys type_map)) \<and>
      distinct (map key_id key_els) \<and>
      distinct (map key_name node_keys) \<and>
      distinct (map key_name edge_keys) \<and>
      (\<forall>n \<in> set node_els. \<forall>d \<in> set (getElementsByTagName n ''data'').
          data_element_ok node_keys d) \<and>
      (\<forall>e \<in> set edge_els. \<forall>d \<in> set (getElementsByTagName e ''data'').
          data_element_ok edge_keys d) \<and>
      (\<forall>e \<in> set edge_els.
          getAttribute e ''source'' \<in> set (map (\<lambda>n. getAttribute n ''id'') node_els) \<and>
          getAttribute e ''target'' \<in> set (map (\<lambda>n. getAttribute n ''id'') node_els))"
    unfolding well_formed_graphml_def root graph list.case Let_def defs .
  then have doc_keys: "elements_by_tag ''key'' document = key_els"
    and doc_nodes: "elements_by_tag ''node'' document = node_els"
    and doc_edges: "elements_by_tag ''edge'' document = edge_els"
    and types: "\<forall>k \<in> set key_els. getAttribute k ''attr.type'' \<in> set (keys type_map)"
    and ids: "distinct (map key_id key_els)"
    and node_names: "distinct (map key_name node_keys)"
    and edge_names: "distinct (map key_name edge_keys)"
    and node_data: "\<forall>n \<in> set node_els. \<forall>d \<in> set (getElementsByTagName n ''data'').
          data_element_ok node_keys d"
    and edge_data: "\<forall>e \<in> set edge_els. \<forall>d \<in> set (getElementsByTagName e ''data'').
          data_element_ok edge_keys d"
    and ends: "\<forall>e \<in> set edge_els.
          getAttribute e ''source'' \<in> set (map (\<lambda>n. getAttribute n ''id'') node_els) \<and>
          getAttribute e ''target'' \<in> set (map (\<lambda>n. getAttribute n ''id'') node_els)"
    by simp_all
  have node_ids: "distinct (map key_id node_keys)" and edge_ids: "distinct (map key_id edge_keys)"
    using ids by (simp_all add: node_keys_def edge_keys_def distinct_map_filter)
  have "\<exists>kt. scan_keys key_els no_keys = Inr kt \<and>
      node_map kt = node_map no_keys @ map (\<lambda>k. (key_id k, key_name k)) node_keys \<and>
      edge_map kt = edge_map no_keys @ map (\<lambda>k. (key_id k, key_name k)) edge_keys \<and>
      set (keys (node_props kt)) = set (keys (node_props no_keys)) \<union> set (map key_name node_keys) \<and>
      set (keys (edge_props kt)) = set (keys (edge_props no_keys)) \<union> set (map key_name edge_keys)"
    unfolding key_id_def key_name_def node_keys_def edge_keys_def
  proof (rule scan_keys_tables [OF types])
    show "distinct (keys (node_map no_keys) @
        map (\<lambda>k. getAttribute k ''id'') (filter (\<lambda>k. getAttribute k ''for'' \<noteq> ''edge'') key_els))"
      using node_ids by (simp add: no_keys_def keys_Nil node_keys_def key_id_def)
    show "distinct (keys (edge_map no_keys) @
        map (\<lambda>k. getAttribute k ''id'') (filter (\<lambda>k. getAttribute k ''for'' = ''edge'') key_els))"
      using edge_ids by (simp add: no_keys_def keys_Nil edge_keys_def key_id_def)
  qed
  then obtain kt where scan: "scan_keys key_els no_keys = Inr kt"
    and nm: "node_map kt = map (\<lambda>k. (key_id k, key_name k)) node_keys"
    and em: "edge_map kt = map (\<lambda>k. (key_id k, key_name k)) edge_keys"
    and np: "set (map key_name node_keys) \<subseteq> set (keys (node_props kt))"
    and ep: "set (map key_name edge_keys) \<subseteq> set (keys (edge_props kt))"
    by (auto simp: no_keys_def)
  from schema_in_id_order [OF nm node_ids node_names np] obtain node_schema where
    ns: "sorted_props (sort (keys (node_map kt))) (node_map kt) (node_props kt) [] = Inr node_schema"
    and ns_keys: "keys node_schema = map key_name (sort_key key_id node_keys)"
    by auto
  from schema_in_id_order [OF em edge_ids edge_names ep] obtain edge_schema where
    es: "sorted_props (sort (keys (edge_map kt))) (edge_map kt) (edge_props kt) [] = Inr edge_schema"
    and es_keys: "keys edge_schema = map key_name (sort_key key_id edge_keys)"
    by auto
  have nm_keys: "keys (node_map kt) = map key_id node_keys"
    and em_keys: "keys (edge_map kt) = map key_id edge_keys"
    by (simp_all add: nm em keys_def comp_def)
  have node_items: "\<forall>n \<in> set node_els.
      \<exists>item. read_data (node_map kt) (getElementsByTagName n ''data'') new_node_attr = Inr item"
  proof
    fix n assume "n \<in> set node_els"
    with node_data have "\<forall>d \<in> set (getElementsByTagName n ''data'').
        getAttribute d ''key'' \<in> set (keys (node_map kt)) \<and>
        (case childNodes d of Element _ _ _ # _ \<Rightarrow> False | _ \<Rightarrow> True)"
      by (simp add: data_element_ok_def nm_keys key_id_def)
    then show "\<exists>item. read_data (node_map kt) (getElementsByTagName n ''data'') new_node_attr = Inr item"
      by (rule read_data_succeeds)
  qed
  have edge_items: "\<forall>e \<in> set edge_els.
      \<exists>item. read_data (edge_map kt) (getElementsByTagName e ''data'') [] = Inr item"
  proof
    fix e assume "e \<in> set edge_els"
    with edge_data have "\<forall>d \<in> set (getElementsByTagName e ''data'').
        getAttribute d ''key'' \<in> set (keys (edge_map kt)) \<and>
        (case childNodes d of Element _ _ _ # _ \<Rightarrow> False | _ \<Rightarrow> True)"
      by (simp add: data_element_ok_def em_keys key_id_def)
    then show "\<exists>item. read_data (edge_map kt) (getElementsByTagName e ''data'') [] = Inr item"
      by (rule read_data_succeeds)
  qed
  from add_nodes_succeeds [OF node_items] obtain g1 where
    g1: "add_nodes (node_map kt) node_els (Graph (getAttribute graph ''id'')) = Inr g1"
    by auto
  from add_nodes_result [OF g1] obtain nodes where
    g1_nodes: "graph_nodes g1 = nodes"
    and nodes: "list_all2 (\<lambda>el n. read_data (node_map kt) (getElementsByTagName el ''data'')
                     new_node_attr = Inr (node_attr n) \<and> node_id n = getAttribute el ''id'')
                   node_els nodes"
    and g1_edges: "graph_edges g1 = []"
    by (auto simp: Graph_def)
  have g1_ids: "map node_id (graph_nodes g1) = map (\<lambda>n. getAttribute n ''id'') node_els"
    unfolding g1_nodes by (rule node_ids_of_added [OF nodes])
  have "\<forall>e \<in> set edge_els.
      getAttribute e ''source'' \<in> set (map node_id (graph_nodes g1)) \<and>
      getAttribute e ''target'' \<in> set (map node_id (graph_nodes g1))"
    unfolding g1_ids by (rule ends)
  from add_edges_succeeds [OF edge_items this] obtain g where
    g: "add_edges (edge_map kt) edge_els g1 = Inr g"
    by auto
  from add_edges_result [OF g] obtain edges where
    g_edges: "graph_edges g = edges" and g_nodes: "graph_nodes g = nodes"
    and edges: "list_all2 (\<lambda>el e. read_data (edge_map kt) (getElementsByTagName el ''data'') []
                     = Inr (edge_attr e)) edge_els edges"
    by (auto simp: g1_nodes g1_edges)
  have parse: "parse_graphml_file document = Inr (g, edge_schema, node_schema)"
    unfolding parse_graphml_file_def root graph list.case
    using scan ns es g1 g by (simp add: defs)
  note nodes' = nodes [folded g_nodes, unfolded nm]
  note edges' = edges [folded g_edges, unfolded em]
  from parse ns_keys es_keys nodes' edges' show ?thesis
    unfolding doc_keys doc_nodes doc_edges defs by (intro exI conjI)
qed

subsection \<open>Data elements without content\<close>




subsection \<open>Counts and schema order\<close>

text \<open>
  Claim C6. A well-formed document is parsed without error. The graph has as many nodes
  as the document has \<^verbatim>\<open>node\<close> elements and as many edges as it has \<^verbatim>\<open>edge\<close>
  elements. The keys of the node schema are the attribute names of the node keys, listed
  by ascending key identifier (the order of the identifiers as strings, whatever the
  order of the names), and likewise the keys of the edge schema for the edge keys.
\<close>

theorem parse_counts_and_schema_order:
  assumes wf: "well_formed_graphml document"
  shows "\<exists>g edge_schema node_schema.
    parse_graphml_file document = Inr (g, edge_schema, node_schema) \<and>
    length (graph_nodes g) = length (elements_by_tag ''node'' document) \<and>
    length (graph_edges g) = length (elements_by_tag ''edge'' document) \<and>
    keys node_schema =
      map (\<lambda>k. getAttribute k ''attr.name'')
        (sort_key (\<lambda>k. getAttribute k ''id'')
          (filter (\<lambda>k. getAttribute k ''for'' \<noteq> ''edge'') (elements_by_tag ''key'' document))) \<and>
    keys edge_schema =
      map (\<lambda>k. getAttribute k ''attr.name'')
        (sort_key (\<lambda>k. getAttribute k ''id'')
          (filter (\<lambda>k. getAttribute k ''for'' = ''edge'') (elements_by_tag ''key'' document)))"
proof -
  from well_formed_parse [OF wf] obtain g edge_schema node_schema where
    parse: "parse_graphml_file document = Inr (g, edge_schema, node_schema)"
    and ns_keys: "keys node_schema =
      map (\<lambda>k. getAttribute k ''attr.name'')
        (sort_key (\<lambda>k. getAttribute k ''id'')
          (filter (\<lambda>k. getAttribute k ''for'' \<noteq> ''edge'') (elements_by_tag ''key'' document)))"
    and es_keys: "keys edge_schema =
      map (\<lambda>k. getAttribute k ''attr.name'')
        (sort_key (\<lambda>k. getAttribute k ''id'')
          (filter (\<lambda>k. getAttribute k ''for'' = ''edge'') (elements_by_tag ''key'' document)))"
    and nodes: "list_all2
      (\<lambda>el n. read_data
          (map (\<lambda>k. (getAttribute k ''id'', getAttribute k ''attr.name''))
            (filter (\<lambda>k. getAttribute k ''for'' \<noteq> ''edge'') (elements_by_tag ''key'' document)))
          (getElementsByTagName el ''data'') new_node_attr = Inr (node_attr n) \<and>
        node_id n = getAttribute el ''id'')
      (elements_by_tag ''node'' document) (graph_nodes g)"
    and edges: "list_all2
      (\<lambda>el e. read_data
          (map (\<lambda>k. (getAttribute k ''id'', getAttribute k ''attr.name''))
            (filter (\<lambda>k. getAttribute k ''for'' = ''edge'') (elements_by_tag ''key'' document)))
          (getElementsByTagName el ''data'') [] = Inr (edge_attr e))
      (elements_by_tag ''edge'' document) (graph_edges g)"
    by (elim exE conjE)
  have n_count: "length (graph_nodes g) = length (elements_by_tag ''node'' document)"
    using list_all2_lengthD [OF nodes] by simp
  have e_count: "length (graph_edges g) = length (elements_by_tag ''edge'' document)"
    using list_all2_lengthD [OF edges] by simp
  from parse n_count e_count ns_keys es_keys show ?thesis
    by (intro exI conjI)
qed

theorem parse_counts_and_schema_order_witness:
  "\<exists>g edge_schema node_schema.
    parse_graphml_file example_document = Inr (g, edge_schema, node_schema) \<and>
    length (graph_nodes g) = 2 \<and> length (graph_edges g) = 1 \<and>
    keys node_schema = [''zeta'', ''alpha''] \<and> keys edge_schema = [''weight'']"
proof -
  have wf: "well_formed_graphml example_document" by code_simp
  have n: "length (elements_by_tag ''node'' example_document) = 2"
    and e: "length (elements_by_tag ''edge'' example_document) = 1"
    by (simp_all add: example_document_def)
  have nk: "map (\<lambda>k. getAttribute k ''attr.name'')
        (sort_key (\<lambda>k. getAttribute k ''id'')
          (filter (\<lambda>k. getAttribute k ''for'' \<noteq> ''edge'')
             (elements_by_tag ''key'' example_document))) = [''zeta'', ''alpha'']"
    by code_simp
  have ek: "map (\<lambda>k. getAttribute k ''attr.name'')
        (sort_key (\<lambda>k. getAttribute k ''id'')
          (filter (\<lambda>k. getAttribute k ''for'' = ''edge'')
             (elements_by_tag ''key'' example_document))) = [''weight'']"
    by code_simp
  from parse_counts_and_schema_order [OF wf] show ?thesis
    unfolding n e nk ek .
qed

end
